theory Spec2Isabelle
  imports Complex_Main "HOL-Library.Sublist"
begin

section \<open>Mission planner: the waypoint list\<close>

text \<open>
  The embedding follows \<^verbatim>\<open>MissionPlannerPanel.jsx\<close> and \<^verbatim>\<open>TelemetryOverlay\<close>
  (the home page's two panels) and \<^verbatim>\<open>CesiumContext.jsx\<close>. React state is a record,
  a state setter is a record update, an event handler is a function from the state before
  to the state after. Numbers that the code only moves around (coordinates, altitudes) are
  reals; console output is left out.
\<close>

subsection \<open>Data\<close>

text \<open>\<^verbatim>\<open>const MODES = ["HOLD", "WAYPOINT", "LOITER", "TAKEOFF", "LAND"]\<close>\<close>

datatype action_mode = HOLD | WAYPOINT | LOITER | TAKEOFF | LAND

fun mode_name :: "action_mode \<Rightarrow> string" where
  "mode_name HOLD = ''HOLD''"
| "mode_name WAYPOINT = ''WAYPOINT''"
| "mode_name LOITER = ''LOITER''"
| "mode_name TAKEOFF = ''TAKEOFF''"
| "mode_name LAND = ''LAND''"

definition MODES :: "action_mode list" where
  "MODES = [HOLD, WAYPOINT, LOITER, TAKEOFF, LAND]"

definition DEFAULT_ALTITUDE_M :: real where
  "DEFAULT_ALTITUDE_M = 5"

text \<open>
  A waypoint object \<^verbatim>\<open>{ id, longitude, latitude, altitude, mode }\<close>. The field
  \<^verbatim>\<open>id\<close> is written \<open>id_wp\<close>.
\<close>

record waypoint =
  id_wp :: string
  longitude :: real
  latitude :: real
  altitude :: real
  mode :: action_mode

text \<open>
  The object passed as \<^verbatim>\<open>patch\<close> to \<^verbatim>\<open>updateWaypoint\<close>: the callers pass
  \<^verbatim>\<open>{ longitude, latitude }\<close> (drag), \<^verbatim>\<open>{ altitude }\<close> and \<^verbatim>\<open>{ mode }\<close>
  (the list's inputs). An absent key is \<open>None\<close>.
\<close>

record patch =
  patch_longitude :: "real option"
  patch_latitude :: "real option"
  patch_altitude :: "real option"
  patch_mode :: "action_mode option"

text \<open>The object spread \<^verbatim>\<open>{ ...wp, ...patch }\<close>: keys of the patch win.\<close>

definition spread :: "waypoint \<Rightarrow> patch \<Rightarrow> waypoint" where
  "spread wp p =
     \<lparr> id_wp = id_wp wp,
       longitude = (case patch_longitude p of None \<Rightarrow> longitude wp | Some v \<Rightarrow> v),
       latitude = (case patch_latitude p of None \<Rightarrow> latitude wp | Some v \<Rightarrow> v),
       altitude = (case patch_altitude p of None \<Rightarrow> altitude wp | Some v \<Rightarrow> v),
       mode = (case patch_mode p of None \<Rightarrow> mode wp | Some v \<Rightarrow> v) \<rparr>"

datatype planner_mode = MANUAL | KML

text \<open>
  The state of \<^verbatim>\<open>MissionPlannerPanel\<close> that the mission handlers read or write.
  \<open>selectedIdx\<close> is \<^verbatim>\<open>null\<close> or a list index. The panel's own
  \<^verbatim>\<open>selectedDroneId\<close> is written \<open>targetDroneId\<close> (the overlay has a state
  variable of the same name).
\<close>

record panel =
  addMode :: bool
  selectedIdx :: "nat option"
  waypoints :: "waypoint list"
  missionStatus :: string
  plannerMode :: planner_mode
  targetDroneId :: "nat option"

subsection \<open>Store operations\<close>

text \<open>
  \<^verbatim>\<open>addWaypointAt(lng, lat, alt = DEFAULT_ALTITUDE_M)\<close>. The argument \<open>uuid\<close> is the
  value that \<^verbatim>\<open>crypto.randomUUID()\<close> returns in this call; an omitted \<^verbatim>\<open>alt\<close> is
  \<open>None\<close>.
\<close>

definition addWaypointAt :: "real \<Rightarrow> real \<Rightarrow> real option \<Rightarrow> string \<Rightarrow> panel \<Rightarrow> panel" where
  "addWaypointAt lng lat alt uuid st =
     st\<lparr> waypoints := waypoints st @
       [\<lparr> id_wp = uuid,
          longitude = lng,
          latitude = lat,
          altitude = (case alt of None \<Rightarrow> DEFAULT_ALTITUDE_M | Some a \<Rightarrow> a),
          mode = WAYPOINT \<rparr>] \<rparr>"

text \<open>
  \<^verbatim>\<open>prev.map((wp, i) => (i === idx ? { ...wp, ...patch } : wp))\<close>: the list is paired
  with its indices.
\<close>

definition updateWaypoint :: "nat \<Rightarrow> patch \<Rightarrow> panel \<Rightarrow> panel" where
  "updateWaypoint idx p st =
     st\<lparr> waypoints :=
       map (\<lambda>(i, wp). if i = idx then spread wp p else wp) (enumerate 0 (waypoints st)) \<rparr>"

text \<open>
  \<^verbatim>\<open>prev.filter((_, i) => i !== idx)\<close>, then
  \<^verbatim>\<open>if (selectedIdx === idx) setSelectedIdx(null)\<close>.
\<close>

definition removeWaypoint :: "nat \<Rightarrow> panel \<Rightarrow> panel" where
  "removeWaypoint idx st =
     (let st1 = st\<lparr> waypoints :=
                  map snd (filter (\<lambda>(i, wp). i \<noteq> idx) (enumerate 0 (waypoints st))) \<rparr>
      in if selectedIdx st = Some idx then st1\<lparr> selectedIdx := None \<rparr> else st1)"

definition clearWaypoints :: "panel \<Rightarrow> panel" where
  "clearWaypoints st = st\<lparr> waypoints := [], selectedIdx := None \<rparr>"

subsection \<open>Adding by a click on the map\<close>

text \<open>
  \<^verbatim>\<open>toDegrees(viewer.camera.pickEllipsoid(click.position, WGS84))\<close> is Cesium's; the
  click carries its result, \<open>None\<close> when the pick or the conversion gives \<^verbatim>\<open>null\<close>.
\<close>

record degrees =
  deg_longitude :: real
  deg_latitude :: real
  deg_altitude :: real

definition leftClickFn :: "degrees option \<Rightarrow> string \<Rightarrow> panel \<Rightarrow> panel" where
  "leftClickFn click uuid st =
     (if \<not> addMode st \<or> plannerMode st \<noteq> MANUAL then st
      else case click of
             None \<Rightarrow> st
           | Some deg \<Rightarrow>
               addWaypointAt (deg_longitude deg) (deg_latitude deg) (Some DEFAULT_ALTITUDE_M) uuid st)"

section \<open>Map reconciliation: the entity refresh effect\<close>

subsection \<open>The rendering surface\<close>

text \<open>
  \<^verbatim>\<open>Cesium.Cartesian3.fromDegrees(lon, lat, h)\<close> is Cesium's conversion; a position is
  kept as the three arguments it was made from.
\<close>

datatype cartesian3 = Cartesian3 real real real

definition fromDegrees :: "real \<Rightarrow> real \<Rightarrow> real \<Rightarrow> cartesian3" where
  "fromDegrees lon lat h = Cartesian3 lon lat h"

datatype heightReference = NONE | CLAMP_TO_GROUND

text \<open>
  The option bag given to \<^verbatim>\<open>viewer.entities.add\<close>, without the constants of styling
  (sizes, colours, fonts): \<open>ent_point\<close> is the point graphics with its height reference,
  \<open>ent_label\<close> the label with its text, \<open>ent_polyline\<close> the polyline with its
  positions. An entity is the bag with the identity the collection gives it. The panel's
  ref holds the entity objects, and only this effect writes to them: the lists of the ref
  hold them by value, and the viewer's collection holds their handles.
\<close>

record options =
  ent_name :: string
  ent_position :: "cartesian3 option"
  ent_point :: "heightReference option"
  ent_label :: "string option"
  ent_polyline :: "cartesian3 list option"

record entity = options +
  handle :: nat

datatype call = Add nat | Remove nat

text \<open>
  What the effect reads and writes: the viewer of the context (\<open>viewer\<close> is
  \<^verbatim>\<open>viewer && Cesium\<close>), its entity collection as the list of the handles in it, the
  log of the \<^verbatim>\<open>add\<close> and \<^verbatim>\<open>remove\<close> calls made on it, the panel's
  \<^verbatim>\<open>entitiesRef.current\<close> (\<open>points\<close>, \<open>polyline\<close>, \<open>yellowSegments\<close>) and the
  two shared values of \<^verbatim>\<open>CesiumContext\<close>.
\<close>

record scene =
  viewer :: bool
  collection :: "nat list"
  next_handle :: nat
  calls :: "call list"
  points :: "entity list"
  polyline :: "entity option"
  yellowSegments :: "entity list"
  manualWaypointsCount :: nat
  kmlUploaded :: bool

text \<open>\<^verbatim>\<open>viewer.entities.add(options)\<close>: the entity it returns, and the scene after.\<close>

definition created :: "options \<Rightarrow> scene \<Rightarrow> entity" where
  "created opts s =
     \<lparr> ent_name = ent_name opts, ent_position = ent_position opts, ent_point = ent_point opts,
       ent_label = ent_label opts, ent_polyline = ent_polyline opts, handle = next_handle s \<rparr>"

definition entities_add :: "options \<Rightarrow> scene \<Rightarrow> scene" where
  "entities_add opts s =
     s\<lparr> collection := collection s @ [next_handle s],
        next_handle := Suc (next_handle s),
        calls := calls s @ [Add (next_handle s)] \<rparr>"

definition entities_remove :: "entity \<Rightarrow> scene \<Rightarrow> scene" where
  "entities_remove ent s =
     s\<lparr> collection := removeAll (handle ent) (collection s),
        calls := calls s @ [Remove (handle ent)] \<rparr>"

subsection \<open>Text of a label\<close>

text \<open>The decimal digits of a number, as a template literal prints it.\<close>

fun show_nat :: "nat \<Rightarrow> string" where
  "show_nat n =
     (if n < 10 then [char_of (48 + n)] else show_nat (n div 10) @ [char_of (48 + n mod 10)])"

declare show_nat.simps [simp del]

definition toUpperCase :: "string \<Rightarrow> string" where
  "toUpperCase str =
     map (\<lambda>c. if 97 \<le> (of_char c :: nat) \<and> (of_char c :: nat) \<le> 122
              then char_of ((of_char c :: nat) - 32) else c) str"

text \<open>
  \<^verbatim>\<open>wp.mode === "WAYPOINT" ? "WP" : wp.mode.substring(0, 2).toUpperCase()\<close>
\<close>

definition abbrev :: "action_mode \<Rightarrow> string" where
  "abbrev m = (if m = WAYPOINT then ''WP'' else toUpperCase (take 2 (mode_name m)))"

subsection \<open>The path line\<close>

definition positions_of :: "waypoint list \<Rightarrow> cartesian3 list" where
  "positions_of wps = map (\<lambda>wp. fromDegrees (longitude wp) (latitude wp) 0) wps"

text \<open>
  The line ``Mission Path'' is created once. Its positions are a callback that closes over
  the \<^verbatim>\<open>waypoints\<close> of the render that created it.
\<close>

definition ensurePolyline :: "waypoint list \<Rightarrow> scene \<Rightarrow> scene" where
  "ensurePolyline wps s =
     (case polyline s of
        Some ent \<Rightarrow> s
      | None \<Rightarrow>
          (let opts = \<lparr> ent_name = ''Mission Path'', ent_position = None, ent_point = None,
                        ent_label = None, ent_polyline = Some (positions_of wps) \<rparr>;
               ent = created opts s;
               s1 = entities_add opts s
           in s1\<lparr> polyline := Some ent \<rparr>))"

subsection \<open>\<^verbatim>\<open>syncYellowSegments\<close>\<close>

text \<open>\<^verbatim>\<open>while (segs.length > needed) { const ent = segs.pop(); viewer.entities.remove(ent); }\<close>\<close>

function trimSegments :: "nat \<Rightarrow> scene \<Rightarrow> scene" where
  "trimSegments needed s =
     (if length (yellowSegments s) > needed
      then trimSegments needed
             (entities_remove (last (yellowSegments s))
                (s\<lparr> yellowSegments := butlast (yellowSegments s) \<rparr>))
      else s)"
  by pat_completeness auto
termination
  by (relation "measure (\<lambda>(needed, s). length (yellowSegments s) - needed)")
     (auto simp: entities_remove_def)

text \<open>
  \<^verbatim>\<open>while (segs.length < needed) { const ent = viewer.entities.add({...}); segs.push(ent); }\<close>
\<close>

definition segment_options :: "nat \<Rightarrow> options" where
  "segment_options k =
     \<lparr> ent_name = ''Segment-'' @ show_nat k, ent_position = None, ent_point = None,
       ent_label = None, ent_polyline = Some [] \<rparr>"

function growSegments :: "nat \<Rightarrow> scene \<Rightarrow> scene" where
  "growSegments needed s =
     (if length (yellowSegments s) < needed
      then growSegments needed
             ((entities_add (segment_options (length (yellowSegments s))) s)
                \<lparr> yellowSegments := yellowSegments s @
                     [created (segment_options (length (yellowSegments s))) s] \<rparr>)
      else s)"
  by pat_completeness auto
termination
  by (relation "measure (\<lambda>(needed, s). needed - length (yellowSegments s))")
     (auto simp: entities_add_def)

text \<open>
  \<^verbatim>\<open>for (let i = 0; i < needed; i++) { segs[i].polyline.positions = [a, b]; }\<close> with
  \<^verbatim>\<open>a = waypoints[i]\<close> and \<^verbatim>\<open>b = waypoints[i + 1]\<close>.
\<close>

function placeSegments :: "nat \<Rightarrow> nat \<Rightarrow> waypoint list \<Rightarrow> scene \<Rightarrow> scene" where
  "placeSegments i needed wps s =
     (if i < needed
      then placeSegments (Suc i) needed wps
             (s\<lparr> yellowSegments := (yellowSegments s)
                   [i := (yellowSegments s ! i)
                      \<lparr> ent_polyline :=
                          Some [fromDegrees (longitude (wps ! i)) (latitude (wps ! i)) 0,
                                fromDegrees (longitude (wps ! Suc i)) (latitude (wps ! Suc i)) 0] \<rparr>] \<rparr>)
      else s)"
  by pat_completeness auto
termination
  by (relation "measure (\<lambda>(i, needed, wps, s). needed - i)") auto

text \<open>\<^verbatim>\<open>const needed = Math.max(0, waypoints.length - 1)\<close>\<close>

definition needed_segments :: "waypoint list \<Rightarrow> nat" where
  "needed_segments wps = nat (max 0 (int (length wps) - 1))"

definition syncYellowSegments :: "waypoint list \<Rightarrow> scene \<Rightarrow> scene" where
  "syncYellowSegments wps s =
     placeSegments 0 (needed_segments wps) wps
       (growSegments (needed_segments wps) (trimSegments (needed_segments wps) s))"

subsection \<open>The point markers\<close>

text \<open>\<^verbatim>\<open>while (points.length > waypoints.length) { const ent = points.pop(); viewer.entities.remove(ent); }\<close>\<close>

function trimPoints :: "waypoint list \<Rightarrow> scene \<Rightarrow> scene" where
  "trimPoints wps s =
     (if length (points s) > length wps
      then trimPoints wps
             (entities_remove (last (points s)) (s\<lparr> points := butlast (points s) \<rparr>))
      else s)"
  by pat_completeness auto
termination
  by (relation "measure (\<lambda>(wps, s). length (points s) - length wps)")
     (auto simp: entities_remove_def)

definition point_options :: "waypoint list \<Rightarrow> nat \<Rightarrow> options" where
  "point_options wps newIdx =
     \<lparr> ent_name = ''WP-'' @ show_nat (newIdx + 1),
       ent_position =
         Some (fromDegrees (longitude (wps ! newIdx)) (latitude (wps ! newIdx)) 0),
       ent_point = Some CLAMP_TO_GROUND,
       ent_label = Some (show_nat (newIdx + 1)),
       ent_polyline = None \<rparr>"

text \<open>
  \<^verbatim>\<open>while (points.length < waypoints.length) { const newIdx = points.length; ...; points.push(ent); }\<close>
\<close>

function growPoints :: "waypoint list \<Rightarrow> scene \<Rightarrow> scene" where
  "growPoints wps s =
     (if length (points s) < length wps
      then growPoints wps
             ((entities_add (point_options wps (length (points s))) s)
                \<lparr> points := points s @ [created (point_options wps (length (points s))) s] \<rparr>)
      else s)"
  by pat_completeness auto
termination
  by (relation "measure (\<lambda>(wps, s). length wps - length (points s))")
     (auto simp: entities_add_def)

text \<open>The body of \<^verbatim>\<open>points.forEach((ent, i) => { ... })\<close>.\<close>

definition placePoint :: "waypoint list \<Rightarrow> nat \<Rightarrow> entity \<Rightarrow> entity" where
  "placePoint wps i ent =
     (let wp = wps ! i;
          e1 = ent\<lparr> ent_position := Some (fromDegrees (longitude wp) (latitude wp) 0) \<rparr>;
          e2 = (if ent_point e1 \<noteq> None then e1\<lparr> ent_point := Some CLAMP_TO_GROUND \<rparr> else e1)
      in if ent_label e2 \<noteq> None
         then e2\<lparr> ent_label := Some (show_nat (i + 1) @ '' '' @ abbrev (mode wp)) \<rparr>
         else e2)"

definition placePoints :: "waypoint list \<Rightarrow> scene \<Rightarrow> scene" where
  "placePoints wps s =
     s\<lparr> points := map (\<lambda>(i, ent). placePoint wps i ent) (enumerate 0 (points s)) \<rparr>"

subsection \<open>The effect\<close>

text \<open>
  \<^verbatim>\<open>useEffect(() => { if (!viewer || !Cesium) return; ... }, [viewer, Cesium, waypoints, ...])\<close>:
  one reconciliation pass over the waypoint list of the render. Each pool is brought to its
  length before it is written, so every index read in the pass is in range.
\<close>

definition refreshEntities :: "waypoint list \<Rightarrow> scene \<Rightarrow> scene" where
  "refreshEntities wps s =
     (if \<not> viewer s then s
      else placePoints wps (growPoints wps (trimPoints wps
             (syncYellowSegments wps
                (ensurePolyline wps (s\<lparr> manualWaypointsCount := length wps \<rparr>))))))"

text \<open>
  The store operations as data, and a render after each: the operation changes the list and
  the effect runs on the new list.
\<close>

datatype operation =
    AddAt real real string
  | Update nat patch
  | Delete nat
  | Clear

fun apply_operation :: "operation \<Rightarrow> panel \<Rightarrow> panel" where
  "apply_operation (AddAt lng lat uuid) st = addWaypointAt lng lat None uuid st"
| "apply_operation (Update idx p) st = updateWaypoint idx p st"
| "apply_operation (Delete idx) st = removeWaypoint idx st"
| "apply_operation Clear st = clearWaypoints st"

definition render_after :: "panel \<times> scene \<Rightarrow> operation \<Rightarrow> panel \<times> scene" where
  "render_after ps op =
     (let st = apply_operation op (fst ps)
      in (st, refreshEntities (waypoints st) (snd ps)))"

text \<open>The effect also runs after the first render, before any operation.\<close>

definition first_render :: "panel \<times> scene \<Rightarrow> panel \<times> scene" where
  "first_render ps = (fst ps, refreshEntities (waypoints (fst ps)) (snd ps))"

definition run_operations :: "operation list \<Rightarrow> panel \<times> scene \<Rightarrow> panel \<times> scene" where
  "run_operations ops ps = foldl render_after (first_render ps) ops"

text \<open>The two ends written into segment \<open>i\<close>.\<close>

definition segment_positions :: "waypoint list \<Rightarrow> nat \<Rightarrow> cartesian3 list" where
  "segment_positions wps i =
     [fromDegrees (longitude (wps ! i)) (latitude (wps ! i)) 0,
      fromDegrees (longitude (wps ! Suc i)) (latitude (wps ! Suc i)) 0]"

declare trimSegments.simps [simp del] growSegments.simps [simp del]
  placeSegments.simps [simp del] trimPoints.simps [simp del] growPoints.simps [simp del]

section \<open>Requests and responses\<close>

text \<open>
  What an awaited \<^verbatim>\<open>fetch\<close> settles with: a rejection (the error's \<^verbatim>\<open>message\<close> and
  its \<^verbatim>\<open>String(e)\<close>), or a response with its \<^verbatim>\<open>ok\<close> flag and its parsed body.
\<close>

datatype 'a response = Rejected string string | Response bool 'a

text \<open>JavaScript truthiness of a number-or-null and of a string-or-undefined.\<close>

definition truthy :: "nat option \<Rightarrow> bool" where
  "truthy v = (case v of None \<Rightarrow> False | Some n \<Rightarrow> n \<noteq> 0)"


text \<open>
  The body of \<^verbatim>\<open>/telemetry/sensors\<close>: the handlers only look at whether it has a
  \<^verbatim>\<open>fleet\<close> key; \<open>content\<close> stands for the rest of the document.
\<close>

record sensors =
  fleet_field :: bool
  content :: nat

section \<open>Mission planner: the telemetry poller\<close>

text \<open>
  The variables of the polling effect of \<^verbatim>\<open>MissionPlannerPanel\<close>: \<open>interval\<close> says
  whether the timer is set, \<open>fetchControllerRef\<close> holds the controller made by the tick
  of that number, \<open>aborted\<close> lists the controllers on which \<^verbatim>\<open>abort()\<close> was called,
  \<open>issued\<close> counts the requests sent, \<open>reading\<close> lists the ticks whose callback
  waits at \<^verbatim>\<open>await resp.json()\<close>. The panel's \<^verbatim>\<open>telemetry\<close> is written
  \<open>telemetry_panel\<close>.
\<close>

record poller =
  mounted :: bool
  connectedRef :: bool
  interval :: bool
  fetchControllerRef :: "nat option"
  aborted :: "nat list"
  issued :: nat
  reading :: "nat list"
  hasActiveConnection :: bool
  telemetry_panel :: "sensors option"

text \<open>
  The timer's callback up to \<^verbatim>\<open>await fetch(url, { signal: nextController.signal })\<close>:
  a new controller replaces the one in the ref, and the request is sent.
\<close>

definition intervalTick :: "poller \<Rightarrow> poller" where
  "intervalTick p =
     (if \<not> connectedRef p \<or> \<not> mounted p then p
      else p\<lparr> fetchControllerRef := Some (issued p), issued := Suc (issued p) \<rparr>)"

text \<open>
  The callback of tick \<open>n\<close> from the moment its \<^verbatim>\<open>fetch\<close> settles up to
  \<^verbatim>\<open>await resp.json()\<close>. A request whose controller was aborted rejects, and the
  \<^verbatim>\<open>catch\<close> only logs. This is the only place where \<^verbatim>\<open>mounted\<close> and
  \<^verbatim>\<open>connectedRef.current\<close> are tested after the request was sent. The body of the
  response is not read yet, so the response carries none.
\<close>

definition fetchSettled :: "nat \<Rightarrow> unit response \<Rightarrow> poller \<Rightarrow> poller" where
  "fetchSettled n resp p =
     (if n \<in> set (aborted p) then p
      else case resp of
             Rejected msg str \<Rightarrow> p
           | Response ok body \<Rightarrow>
               if \<not> mounted p \<or> \<not> connectedRef p then p
               else if ok then p\<lparr> reading := reading p @ [n] \<rparr>
               else p)"

text \<open>
  The rest of the callback of tick \<open>n\<close>, when \<^verbatim>\<open>resp.json()\<close> settles: with the
  document, or with a rejection (\<open>None\<close>) that the \<^verbatim>\<open>catch\<close> only logs. Nothing is
  tested here but \<^verbatim>\<open>data.fleet\<close>.
\<close>

definition jsonSettled :: "nat \<Rightarrow> sensors option \<Rightarrow> poller \<Rightarrow> poller" where
  "jsonSettled n outcome p =
     (if n \<notin> set (reading p) then p
      else (let p1 = p\<lparr> reading := removeAll n (reading p) \<rparr>
            in case outcome of
                 None \<Rightarrow> p1
               | Some data \<Rightarrow>
                   if \<not> fleet_field data then p1\<lparr> telemetry_panel := Some data \<rparr> else p1))"

definition startPolling :: "poller \<Rightarrow> poller" where
  "startPolling p = (if interval p then p else p\<lparr> interval := True \<rparr>)"

definition stopPolling :: "poller \<Rightarrow> poller" where
  "stopPolling p =
     (let p1 = (if interval p then p\<lparr> interval := False \<rparr> else p)
      in case fetchControllerRef p1 of
           None \<Rightarrow> p1
         | Some controller \<Rightarrow>
             p1\<lparr> aborted := controller # aborted p1, fetchControllerRef := None \<rparr>)"

definition onConnected :: "poller \<Rightarrow> poller" where
  "onConnected p =
     (if \<not> mounted p then p
      else startPolling (p\<lparr> connectedRef := True, hasActiveConnection := True \<rparr>))"

definition onDisconnected :: "poller \<Rightarrow> poller" where
  "onDisconnected p =
     (if \<not> mounted p then p
      else stopPolling
             (p\<lparr> connectedRef := False, hasActiveConnection := False, telemetry_panel := None \<rparr>))"

text \<open>The cleanup of the effect: \<^verbatim>\<open>mounted = false; stopPolling();\<close>\<close>

definition cleanup :: "poller \<Rightarrow> poller" where
  "cleanup p = stopPolling (p\<lparr> mounted := False \<rparr>)"

text \<open>
  What can happen to the poller, one event at a time: the timer fires (only while it is
  set), the request of some tick settles, the body of its response is read, the window
  events arrive, the effect is cleaned up.
\<close>

datatype poll_event =
    Tick
  | Settled nat "unit response"
  | BodyRead nat "sensors option"
  | TelemetryConnected
  | TelemetryDisconnected
  | Unmounted

fun poll_step :: "poller \<Rightarrow> poll_event \<Rightarrow> poller" where
  "poll_step p Tick = (if interval p then intervalTick p else p)"
| "poll_step p (Settled n resp) = fetchSettled n resp p"
| "poll_step p (BodyRead n outcome) = jsonSettled n outcome p"
| "poll_step p TelemetryConnected = onConnected p"
| "poll_step p TelemetryDisconnected = onDisconnected p"
| "poll_step p Unmounted = cleanup p"

definition poll_run :: "poll_event list \<Rightarrow> poller \<Rightarrow> poller" where
  "poll_run evs p = foldl poll_step p evs"

section \<open>Telemetry overlay\<close>

text \<open>
  An entry of \<^verbatim>\<open>data.fleet\<close>, and the object itself as its members in the order of the
  JSON text, keyed by system id.
\<close>

record drone =
  latitude_deg :: real
  longitude_deg :: real
  flight_mode :: string

type_synonym fleet_object = "(nat \<times> drone) list"

text \<open>
  \<^verbatim>\<open>Object.keys\<close> of an object whose keys are integer indices lists them in ascending
  numeric order, each once, whatever the order of the JSON text; \<^verbatim>\<open>parseInt\<close> of such a
  key is the number again.
\<close>

definition object_keys :: "fleet_object \<Rightarrow> nat list" where
  "object_keys fl = sort (remdups (map fst fl))"

record fleet_status =
  fleet_count :: nat
  fleet :: "fleet_object option"

text \<open>The \<^verbatim>\<open>drone-selected\<close> event with its \<^verbatim>\<open>detail.sysId\<close>.\<close>

datatype window_event = drone_selected "nat option"

text \<open>The state of \<^verbatim>\<open>TelemetryOverlay\<close> that these handlers read or write.\<close>

record overlay =
  telemetry :: "sensors option"
  isConnected :: bool
  multiConnectionMode :: bool
  fleetStatus :: "fleet_status option"
  selectedDroneId :: "nat option"
  uploadedKmlFile :: "string option"
  isGeneratingPath :: bool

text \<open>
  \<^verbatim>\<open>fetchFleetStatus\<close> from its awaited response on. The function is made inside an
  effect, so the \<^verbatim>\<open>selectedDroneId\<close> it tests is the one of the render that set the
  effect up: it is the argument \<open>sel\<close>.
\<close>

definition fetchFleetStatus ::
    "nat option \<Rightarrow> fleet_status response \<Rightarrow> overlay \<Rightarrow> overlay \<times> window_event list" where
  "fetchFleetStatus sel resp st =
     (case resp of
        Rejected msg str \<Rightarrow> (st, [])
      | Response ok data \<Rightarrow>
          if \<not> ok then (st, [])
          else
            (let st1 = st\<lparr> fleetStatus := Some data \<rparr>
             in case fleet data of
                  None \<Rightarrow> (st1, [])
                | Some fl \<Rightarrow>
                    if \<not> truthy sel \<and> length (object_keys fl) > 0
                    then (let firstSysId = object_keys fl ! 0
                          in (st1\<lparr> selectedDroneId := Some firstSysId \<rparr>,
                              [drone_selected (Some firstSysId)]))
                    else (st1, [])))"

text \<open>
  \<^verbatim>\<open>fetchTelemetry\<close> of the overlay from its awaited response on. It holds no
  controller and takes no signal.
\<close>

definition fetchTelemetry :: "sensors response \<Rightarrow> overlay \<Rightarrow> overlay" where
  "fetchTelemetry resp st =
     (case resp of
        Rejected msg str \<Rightarrow> st
      | Response ok data \<Rightarrow> if ok then st\<lparr> telemetry := Some data \<rparr> else st)"

subsection \<open>Geofile actions\<close>

text \<open>\<^verbatim>\<open>const isKmlBlocked = (manualWaypointsCount || 0) > 0\<close>\<close>

definition isKmlBlocked :: "scene \<Rightarrow> bool" where
  "isKmlBlocked s = (manualWaypointsCount s > 0)"

text \<open>
  The listeners of \<^verbatim>\<open>start-kml-mission\<close> and \<^verbatim>\<open>generate-kml-path\<close>: the result is
  the handler each one calls, if any.
\<close>

datatype overlay_call = call_handleStartMission | call_handleGeneratePath

definition onStartKml :: "scene \<Rightarrow> overlay \<Rightarrow> overlay_call list" where
  "onStartKml s st =
     (if \<not> isKmlBlocked s \<and> uploadedKmlFile st \<noteq> None then [call_handleStartMission] else [])"

definition onGeneratePath :: "scene \<Rightarrow> overlay \<Rightarrow> overlay_call list" where
  "onGeneratePath s st =
     (if \<not> isKmlBlocked s \<and> uploadedKmlFile st \<noteq> None \<and> \<not> isGeneratingPath st
      then [call_handleGeneratePath] else [])"

section \<open>Mission planner: starting a mission\<close>









text \<open>The unified Start button: what a press does, and when the button is enabled.\<close>

datatype start_action = dispatch_start_kml_mission | do_handleStartMission

definition handleUnifiedStart :: "panel \<Rightarrow> start_action" where
  "handleUnifiedStart st =
     (if plannerMode st = KML then dispatch_start_kml_mission else do_handleStartMission)"

definition canStart :: "scene \<Rightarrow> panel \<Rightarrow> bool" where
  "canStart s st =
     ((plannerMode st = MANUAL \<and> length (waypoints st) > 0) \<or>
      (plannerMode st = KML \<and> kmlUploaded s))"

section \<open>Well-formed scenes\<close>

text \<open>
  The handles the panel keeps in \<^verbatim>\<open>entitiesRef\<close>, and the invariant of the effect: they
  are pairwise different entities of the viewer's collection (which may hold entities of
  other components too), the collection holds no entity twice and has given out no handle
  beyond \<open>next_handle\<close>. While it holds no object is held twice, so holding the objects by
  value is the same as holding references to them.
\<close>

definition tracked :: "scene \<Rightarrow> nat list" where
  "tracked s =
     map handle (points s) @ map handle (yellowSegments s) @
     (case polyline s of None \<Rightarrow> [] | Some ent \<Rightarrow> [handle ent])"

definition scene_ok :: "scene \<Rightarrow> bool" where
  "scene_ok s =
     (distinct (tracked s) \<and> set (tracked s) \<subseteq> set (collection s) \<and>
      distinct (collection s) \<and> (\<forall>h \<in> set (collection s). h < next_handle s))"

text \<open>
  The viewer's side of the scene. \<open>foreign\<close> are the entities of the collection that
  the panel does not keep: those of other components, and any entity the panel would have
  dropped from its ref without removing it from the viewer. \<open>rendered\<close> are the entities
  of the collection among the given ones.
\<close>

definition foreign :: "scene \<Rightarrow> nat list" where
  "foreign s = filter (\<lambda>h. h \<notin> set (tracked s)) (collection s)"

definition rendered :: "entity list \<Rightarrow> scene \<Rightarrow> nat list" where
  "rendered ents s = filter (\<lambda>h. h \<in> set (map handle ents)) (collection s)"

section \<open>Initial states and sample values\<close>

text \<open>
  The states of a freshly mounted page (the arguments of the \<^verbatim>\<open>useState\<close> and
  \<^verbatim>\<open>useRef\<close> calls, with a viewer registered), and three waypoints.
\<close>

definition initial_panel :: panel where
  "initial_panel =
     \<lparr> addMode = False, selectedIdx = None, waypoints = [], missionStatus = [],
       plannerMode = MANUAL, targetDroneId = None \<rparr>"

definition initial_scene :: scene where
  "initial_scene =
     \<lparr> viewer = True, collection = [], next_handle = 0, calls = [], points = [],
       polyline = None, yellowSegments = [], manualWaypointsCount = 0, kmlUploaded = False \<rparr>"

text \<open>The initial scene with one entity of another component in the viewer.\<close>

definition pinned_scene :: scene where
  "pinned_scene = initial_scene\<lparr> collection := [0], next_handle := 1 \<rparr>"

definition initial_poller :: poller where
  "initial_poller =
     \<lparr> mounted = True, connectedRef = False, interval = False, fetchControllerRef = None,
       aborted = [], issued = 0, reading = [], hasActiveConnection = False,
       telemetry_panel = None \<rparr>"

definition initial_overlay :: overlay where
  "initial_overlay =
     \<lparr> telemetry = None, isConnected = False, multiConnectionMode = False,
       fleetStatus = None, selectedDroneId = None, uploadedKmlFile = None,
       isGeneratingPath = False \<rparr>"

definition wp_a :: waypoint where
  "wp_a = \<lparr> id_wp = ''a'', longitude = 10, latitude = 20, altitude = 5, mode = WAYPOINT \<rparr>"

definition wp_b :: waypoint where
  "wp_b = \<lparr> id_wp = ''b'', longitude = 11, latitude = 21, altitude = 5, mode = WAYPOINT \<rparr>"

definition wp_c :: waypoint where
  "wp_c = \<lparr> id_wp = ''c'', longitude = 12, latitude = 22, altitude = 5, mode = LOITER \<rparr>"

definition no_patch :: patch where
  "no_patch =
     \<lparr> patch_longitude = None, patch_latitude = None, patch_altitude = None,
       patch_mode = None \<rparr>"

definition sample_drone :: drone where
  "sample_drone = \<lparr> latitude_deg = 20, longitude_deg = 10, flight_mode = ''GUIDED'' \<rparr>"

text \<open>
  Two fleet snapshots, and the overlay after it has received the first of them with nothing
  selected.
\<close>

definition fleet_1_2 :: fleet_status where
  "fleet_1_2 = \<lparr> fleet_count = 2, fleet = Some [(1, sample_drone), (2, sample_drone)] \<rparr>"

definition fleet_2 :: fleet_status where
  "fleet_2 = \<lparr> fleet_count = 1, fleet = Some [(2, sample_drone)] \<rparr>"


definition overlay_after_first_snapshot :: overlay where
  "overlay_after_first_snapshot =
     fst (fetchFleetStatus (selectedDroneId initial_overlay) (Response True fleet_1_2)
            initial_overlay)"

text \<open>The telemetry document that answers the request of tick \<open>n\<close> in the samples.\<close>

definition answer :: "nat \<Rightarrow> sensors" where
  "answer n = \<lparr> fleet_field = False, content = n \<rparr>"

section \<open>Properties of the waypoint list\<close>

lemma map_enumerate_miss:
  "k < n \<Longrightarrow> map (\<lambda>(i, x). if i = k then f x else x) (enumerate n xs) = xs"
  by (induction xs arbitrary: n) simp_all

lemma filter_enumerate_miss:
  "k < n \<Longrightarrow> map snd (filter (\<lambda>(i, x). i \<noteq> k) (enumerate n xs)) = xs"
  by (induction xs arbitrary: n) simp_all

lemma map_enumerate_update:
  "map (\<lambda>(i, x). if i = k + n then f x else x) (enumerate n xs) =
     (if k < length xs then xs[k := f (xs ! k)] else xs)"
proof (induction xs arbitrary: n k)
  case Nil
  then show ?case by simp
next
  case (Cons x xs)
  show ?case
  proof (cases k)
    case 0
    then show ?thesis by (simp add: map_enumerate_miss)
  next
    case (Suc j)
    with Cons.IH [of j "Suc n"] show ?thesis by simp
  qed
qed

lemma filter_enumerate_remove:
  "map snd (filter (\<lambda>(i, x). i \<noteq> k + n) (enumerate n xs)) = take k xs @ drop (Suc k) xs"
proof (induction xs arbitrary: n k)
  case Nil
  then show ?case by simp
next
  case (Cons x xs)
  show ?case
  proof (cases k)
    case 0
    then show ?thesis by (simp add: filter_enumerate_miss)
  next
    case (Suc j)
    with Cons.IH [of j "Suc n"] show ?thesis by simp
  qed
qed

section \<open>Properties of the entity refresh effect\<close>

lemma trimSegments_noop: "length (yellowSegments s) \<le> needed \<Longrightarrow> trimSegments needed s = s"
  by (subst trimSegments.simps) simp

lemma trimSegments_frame:
  "\<exists>c l. trimSegments needed s =
     s\<lparr> collection := c, calls := l, yellowSegments := take needed (yellowSegments s) \<rparr>"
proof (induction needed s rule: trimSegments.induct)
  case (1 needed s)
  show ?case
  proof (cases "needed < length (yellowSegments s)")
    case True
    let ?s' = "entities_remove (last (yellowSegments s)) (s\<lparr> yellowSegments := butlast (yellowSegments s) \<rparr>)"
    from 1 [OF True] obtain c l where
      "trimSegments needed ?s' = ?s'\<lparr> collection := c, calls := l, yellowSegments := take needed (yellowSegments ?s') \<rparr>"
      by blast
    with True have "trimSegments needed s =
        s\<lparr> collection := c, calls := l, yellowSegments := take needed (yellowSegments s) \<rparr>"
      by (subst trimSegments.simps) (simp add: entities_remove_def take_butlast)
    then show ?thesis by blast
  next
    case False
    then have "trimSegments needed s = s\<lparr> collection := collection s, calls := calls s,
        yellowSegments := take needed (yellowSegments s) \<rparr>"
      by (simp add: trimSegments_noop)
    then show ?thesis by blast
  qed
qed

lemma growSegments_noop: "needed \<le> length (yellowSegments s) \<Longrightarrow> growSegments needed s = s"
  by (subst growSegments.simps) simp

lemma growSegments_frame:
  "\<exists>c h l new. growSegments needed s =
     s\<lparr> collection := c, next_handle := h, calls := l, yellowSegments := yellowSegments s @ new \<rparr>
     \<and> length (yellowSegments s @ new) = max needed (length (yellowSegments s))"
proof (induction needed s rule: growSegments.induct)
  case (1 needed s)
  show ?case
  proof (cases "length (yellowSegments s) < needed")
    case True
    let ?e = "created (segment_options (length (yellowSegments s))) s"
    let ?s' = "(entities_add (segment_options (length (yellowSegments s))) s)
                \<lparr> yellowSegments := yellowSegments s @ [?e] \<rparr>"
    from 1 [OF True] obtain c h l new where
      eq: "growSegments needed ?s' = ?s'\<lparr> collection := c, next_handle := h, calls := l,
             yellowSegments := yellowSegments ?s' @ new \<rparr>"
      and len: "length (yellowSegments ?s' @ new) = max needed (length (yellowSegments ?s'))"
      by blast
    from True eq have "growSegments needed s =
        s\<lparr> collection := c, next_handle := h, calls := l,
           yellowSegments := yellowSegments s @ (?e # new) \<rparr>"
      by (subst growSegments.simps) (simp add: entities_add_def)
    moreover from True len have "length (yellowSegments s @ (?e # new)) = max needed (length (yellowSegments s))"
      by simp
    ultimately show ?thesis by blast
  next
    case False
    then have "growSegments needed s = s\<lparr> collection := collection s, next_handle := next_handle s,
        calls := calls s, yellowSegments := yellowSegments s @ [] \<rparr>
        \<and> length (yellowSegments s @ []) = max needed (length (yellowSegments s))"
      by (simp add: growSegments_noop)
    then show ?thesis by blast
  qed
qed

lemma placeSegments_frame:
  "placeSegments i needed wps s = s\<lparr> yellowSegments := yellowSegments (placeSegments i needed wps s) \<rparr>"
proof (induction i needed wps s rule: placeSegments.induct)
  case (1 i needed wps s)
  show ?case
  proof (cases "i < needed")
    case True
    show ?thesis
      by (subst (1 2) placeSegments.simps) (use True 1 [OF True] in simp)
  next
    case False
    then show ?thesis by (subst (1 2) placeSegments.simps) simp
  qed
qed

lemma placeSegments_length:
  "length (yellowSegments (placeSegments i needed wps s)) = length (yellowSegments s)"
proof (induction i needed wps s rule: placeSegments.induct)
  case (1 i needed wps s)
  show ?case
  proof (cases "i < needed")
    case True
    with 1 [OF True] show ?thesis by (subst placeSegments.simps) simp
  next
    case False
    then show ?thesis by (subst placeSegments.simps) simp
  qed
qed

lemma placeSegments_nth:
  "j < length (yellowSegments s) \<Longrightarrow>
   yellowSegments (placeSegments i needed wps s) ! j =
     (if i \<le> j \<and> j < needed
      then (yellowSegments s ! j)\<lparr> ent_polyline := Some (segment_positions wps j) \<rparr>
      else yellowSegments s ! j)"
proof (induction i needed wps s rule: placeSegments.induct)
  case (1 i needed wps s)
  show ?case
  proof (cases "i < needed")
    case True
    have ij: "\<not> Suc i \<le> j \<Longrightarrow> i \<le> j \<Longrightarrow> j = i" by arith
    from True 1 show ?thesis
      by (subst placeSegments.simps) (auto simp: segment_positions_def nth_list_update dest: ij)
  next
    case False
    then have nc: "\<not> (i \<le> j \<and> j < needed)" by arith
    from False have "placeSegments i needed wps s = s"
      by (subst placeSegments.simps) simp
    with nc show ?thesis by auto
  qed
qed

lemma trimPoints_noop: "length (points s) \<le> length wps \<Longrightarrow> trimPoints wps s = s"
  by (subst trimPoints.simps) simp

lemma trimPoints_frame:
  "\<exists>c l. trimPoints wps s =
     s\<lparr> collection := c, calls := l, points := take (length wps) (points s) \<rparr>"
proof (induction wps s rule: trimPoints.induct)
  case (1 wps s)
  show ?case
  proof (cases "length wps < length (points s)")
    case True
    let ?s' = "entities_remove (last (points s)) (s\<lparr> points := butlast (points s) \<rparr>)"
    from 1 [OF True] obtain c l where
      "trimPoints wps ?s' = ?s'\<lparr> collection := c, calls := l, points := take (length wps) (points ?s') \<rparr>"
      by blast
    with True have "trimPoints wps s =
        s\<lparr> collection := c, calls := l, points := take (length wps) (points s) \<rparr>"
      by (subst trimPoints.simps) (simp add: entities_remove_def take_butlast)
    then show ?thesis by blast
  next
    case False
    then have "trimPoints wps s = s\<lparr> collection := collection s, calls := calls s,
        points := take (length wps) (points s) \<rparr>"
      by (simp add: trimPoints_noop)
    then show ?thesis by blast
  qed
qed

lemma growPoints_noop: "length wps \<le> length (points s) \<Longrightarrow> growPoints wps s = s"
  by (subst growPoints.simps) simp

lemma growPoints_frame:
  "\<exists>c h l new. growPoints wps s =
     s\<lparr> collection := c, next_handle := h, calls := l, points := points s @ new \<rparr>
     \<and> length (points s @ new) = max (length wps) (length (points s))"
proof (induction wps s rule: growPoints.induct)
  case (1 wps s)
  show ?case
  proof (cases "length (points s) < length wps")
    case True
    let ?e = "created (point_options wps (length (points s))) s"
    let ?s' = "(entities_add (point_options wps (length (points s))) s)
                \<lparr> points := points s @ [?e] \<rparr>"
    from 1 [OF True] obtain c h l new where
      eq: "growPoints wps ?s' = ?s'\<lparr> collection := c, next_handle := h, calls := l,
             points := points ?s' @ new \<rparr>"
      and len: "length (points ?s' @ new) = max (length wps) (length (points ?s'))"
      by blast
    from True eq have "growPoints wps s =
        s\<lparr> collection := c, next_handle := h, calls := l, points := points s @ (?e # new) \<rparr>"
      by (subst growPoints.simps) (simp add: entities_add_def)
    moreover from True len have "length (points s @ (?e # new)) = max (length wps) (length (points s))"
      by simp
    ultimately show ?thesis by blast
  next
    case False
    then have "growPoints wps s = s\<lparr> collection := collection s, next_handle := next_handle s,
        calls := calls s, points := points s @ [] \<rparr>
        \<and> length (points s @ []) = max (length wps) (length (points s))"
      by (simp add: growPoints_noop)
    then show ?thesis by blast
  qed
qed

lemma map_enumerate_nth:
  "i < length xs \<Longrightarrow> map (\<lambda>(k, x). f k x) (enumerate n xs) ! i = f (n + i) (xs ! i)"
  by (simp add: nth_enumerate_eq)

lemma placePoints_length [simp]: "length (points (placePoints wps s)) = length (points s)"
  by (simp add: placePoints_def)

lemma placePoints_nth:
  "i < length (points s) \<Longrightarrow> points (placePoints wps s) ! i = placePoint wps i (points s ! i)"
  by (simp add: placePoints_def nth_enumerate_eq)


lemma placePoint_handle [simp]: "handle (placePoint wps i e) = handle e"
  by (simp add: placePoint_def Let_def)

lemma placePoint_idem: "placePoint wps i (placePoint wps i e) = placePoint wps i e"
  by (simp add: placePoint_def Let_def)

lemma trimSegments_fields [simp]:
  "viewer (trimSegments n s) = viewer s"
  "polyline (trimSegments n s) = polyline s"
  "points (trimSegments n s) = points s"
  "manualWaypointsCount (trimSegments n s) = manualWaypointsCount s"
  "kmlUploaded (trimSegments n s) = kmlUploaded s"
  "next_handle (trimSegments n s) = next_handle s"
  "yellowSegments (trimSegments n s) = take n (yellowSegments s)"
proof -
  obtain c l where e: "trimSegments n s =
      s\<lparr> collection := c, calls := l, yellowSegments := take n (yellowSegments s) \<rparr>"
    using trimSegments_frame by blast
  show "viewer (trimSegments n s) = viewer s"
    "polyline (trimSegments n s) = polyline s"
    "points (trimSegments n s) = points s"
    "manualWaypointsCount (trimSegments n s) = manualWaypointsCount s"
    "kmlUploaded (trimSegments n s) = kmlUploaded s"
    "next_handle (trimSegments n s) = next_handle s"
    "yellowSegments (trimSegments n s) = take n (yellowSegments s)"
    by (simp_all add: e)
qed

lemma growSegments_fields [simp]:
  "viewer (growSegments n s) = viewer s"
  "polyline (growSegments n s) = polyline s"
  "points (growSegments n s) = points s"
  "manualWaypointsCount (growSegments n s) = manualWaypointsCount s"
  "kmlUploaded (growSegments n s) = kmlUploaded s"
  "length (yellowSegments (growSegments n s)) = max n (length (yellowSegments s))"
  "take (length (yellowSegments s)) (yellowSegments (growSegments n s)) = yellowSegments s"
proof -
  obtain c h l new where e: "growSegments n s =
      s\<lparr> collection := c, next_handle := h, calls := l, yellowSegments := yellowSegments s @ new \<rparr>"
    and len: "length (yellowSegments s @ new) = max n (length (yellowSegments s))"
    using growSegments_frame by blast
  show "viewer (growSegments n s) = viewer s"
    "polyline (growSegments n s) = polyline s"
    "points (growSegments n s) = points s"
    "manualWaypointsCount (growSegments n s) = manualWaypointsCount s"
    "kmlUploaded (growSegments n s) = kmlUploaded s"
    "take (length (yellowSegments s)) (yellowSegments (growSegments n s)) = yellowSegments s"
    by (simp_all add: e)
  from len show "length (yellowSegments (growSegments n s)) = max n (length (yellowSegments s))"
    by (simp add: e)
qed

lemma placeSegments_fields [simp]:
  "viewer (placeSegments i n wps s) = viewer s"
  "polyline (placeSegments i n wps s) = polyline s"
  "points (placeSegments i n wps s) = points s"
  "manualWaypointsCount (placeSegments i n wps s) = manualWaypointsCount s"
  "kmlUploaded (placeSegments i n wps s) = kmlUploaded s"
  "collection (placeSegments i n wps s) = collection s"
  "next_handle (placeSegments i n wps s) = next_handle s"
  "calls (placeSegments i n wps s) = calls s"
  by (subst placeSegments_frame, simp)+

lemma trimPoints_fields [simp]:
  "viewer (trimPoints wps s) = viewer s"
  "polyline (trimPoints wps s) = polyline s"
  "yellowSegments (trimPoints wps s) = yellowSegments s"
  "manualWaypointsCount (trimPoints wps s) = manualWaypointsCount s"
  "kmlUploaded (trimPoints wps s) = kmlUploaded s"
  "next_handle (trimPoints wps s) = next_handle s"
  "points (trimPoints wps s) = take (length wps) (points s)"
proof -
  obtain c l where e: "trimPoints wps s =
      s\<lparr> collection := c, calls := l, points := take (length wps) (points s) \<rparr>"
    using trimPoints_frame by blast
  show "viewer (trimPoints wps s) = viewer s"
    "polyline (trimPoints wps s) = polyline s"
    "yellowSegments (trimPoints wps s) = yellowSegments s"
    "manualWaypointsCount (trimPoints wps s) = manualWaypointsCount s"
    "kmlUploaded (trimPoints wps s) = kmlUploaded s"
    "next_handle (trimPoints wps s) = next_handle s"
    "points (trimPoints wps s) = take (length wps) (points s)"
    by (simp_all add: e)
qed

lemma growPoints_fields [simp]:
  "viewer (growPoints wps s) = viewer s"
  "polyline (growPoints wps s) = polyline s"
  "yellowSegments (growPoints wps s) = yellowSegments s"
  "manualWaypointsCount (growPoints wps s) = manualWaypointsCount s"
  "kmlUploaded (growPoints wps s) = kmlUploaded s"
  "length (points (growPoints wps s)) = max (length wps) (length (points s))"
  "take (length (points s)) (points (growPoints wps s)) = points s"
proof -
  obtain c h l new where e: "growPoints wps s =
      s\<lparr> collection := c, next_handle := h, calls := l, points := points s @ new \<rparr>"
    and len: "length (points s @ new) = max (length wps) (length (points s))"
    using growPoints_frame by blast
  show "viewer (growPoints wps s) = viewer s"
    "polyline (growPoints wps s) = polyline s"
    "yellowSegments (growPoints wps s) = yellowSegments s"
    "manualWaypointsCount (growPoints wps s) = manualWaypointsCount s"
    "kmlUploaded (growPoints wps s) = kmlUploaded s"
    "take (length (points s)) (points (growPoints wps s)) = points s"
    by (simp_all add: e)
  from len show "length (points (growPoints wps s)) = max (length wps) (length (points s))"
    by (simp add: e)
qed

lemma placePoints_fields [simp]:
  "viewer (placePoints wps s) = viewer s"
  "polyline (placePoints wps s) = polyline s"
  "yellowSegments (placePoints wps s) = yellowSegments s"
  "manualWaypointsCount (placePoints wps s) = manualWaypointsCount s"
  "kmlUploaded (placePoints wps s) = kmlUploaded s"
  "collection (placePoints wps s) = collection s"
  "next_handle (placePoints wps s) = next_handle s"
  "calls (placePoints wps s) = calls s"
  by (simp_all add: placePoints_def)

lemma ensurePolyline_fields [simp]:
  "viewer (ensurePolyline wps s) = viewer s"
  "yellowSegments (ensurePolyline wps s) = yellowSegments s"
  "points (ensurePolyline wps s) = points s"
  "manualWaypointsCount (ensurePolyline wps s) = manualWaypointsCount s"
  "kmlUploaded (ensurePolyline wps s) = kmlUploaded s"
  "polyline (ensurePolyline wps s) \<noteq> None"
  by (simp_all add: ensurePolyline_def entities_add_def Let_def split: option.splits)

lemma ensurePolyline_noop: "polyline s \<noteq> None \<Longrightarrow> ensurePolyline wps s = s"
  by (auto simp: ensurePolyline_def)

lemma syncYellowSegments_fields [simp]:
  "viewer (syncYellowSegments wps s) = viewer s"
  "polyline (syncYellowSegments wps s) = polyline s"
  "points (syncYellowSegments wps s) = points s"
  "manualWaypointsCount (syncYellowSegments wps s) = manualWaypointsCount s"
  "kmlUploaded (syncYellowSegments wps s) = kmlUploaded s"
  by (simp_all add: syncYellowSegments_def)

lemma syncYellowSegments_length:
  "length (yellowSegments (syncYellowSegments wps s)) = needed_segments wps"
  by (simp add: syncYellowSegments_def placeSegments_length)

lemma syncYellowSegments_nth:
  "j < needed_segments wps \<Longrightarrow>
   ent_polyline (yellowSegments (syncYellowSegments wps s) ! j) = Some (segment_positions wps j)"
  by (simp add: syncYellowSegments_def placeSegments_nth)

lemma placeSegments_noop:
  assumes "\<forall>j. j < needed \<and> j < length (yellowSegments s) \<longrightarrow>
             ent_polyline (yellowSegments s ! j) = Some (segment_positions wps j)"
  shows "placeSegments i needed wps s = s"
proof -
  have "yellowSegments (placeSegments i needed wps s) = yellowSegments s"
  proof (rule nth_equalityI)
    show "length (yellowSegments (placeSegments i needed wps s)) = length (yellowSegments s)"
      by (rule placeSegments_length)
  next
    fix j assume "j < length (yellowSegments (placeSegments i needed wps s))"
    then have j: "j < length (yellowSegments s)" by (simp add: placeSegments_length)
    with assms show "yellowSegments (placeSegments i needed wps s) ! j = yellowSegments s ! j"
      by (simp add: placeSegments_nth)
  qed
  then show ?thesis by (subst placeSegments_frame) simp
qed

lemma syncYellowSegments_idem:
  "syncYellowSegments wps (syncYellowSegments wps s) = syncYellowSegments wps s"
proof -
  let ?r = "syncYellowSegments wps s"
  have len: "length (yellowSegments ?r) = needed_segments wps"
    by (rule syncYellowSegments_length)
  have "placeSegments 0 (needed_segments wps) wps ?r = ?r"
    by (rule placeSegments_noop) (simp add: syncYellowSegments_nth)
  with len show ?thesis
    by (subst (1) syncYellowSegments_def) (simp add: trimSegments_noop growSegments_noop)
qed

lemma placePoints_idem: "placePoints wps (placePoints wps s) = placePoints wps s"
proof -
  have "points (placePoints wps (placePoints wps s)) = points (placePoints wps s)"
    by (rule nth_equalityI) (simp_all add: placePoints_nth placePoint_idem)
  then show ?thesis by (simp add: placePoints_def)
qed

lemma refreshEntities_viewer [simp]: "viewer (refreshEntities wps s) = viewer s"
  by (simp add: refreshEntities_def)



lemma refreshEntities_idem:
  "refreshEntities wps (refreshEntities wps s) = refreshEntities wps s"
proof (cases "viewer s")
  case False
  then show ?thesis by (simp add: refreshEntities_def)
next
  case True
  let ?a = "ensurePolyline wps (s\<lparr> manualWaypointsCount := length wps \<rparr>)"
  let ?b = "syncYellowSegments wps ?a"
  let ?c = "growPoints wps (trimPoints wps ?b)"
  let ?r = "placePoints wps ?c"
  have r: "refreshEntities wps s = ?r" using True by (simp add: refreshEntities_def)
  have 1: "?r\<lparr> manualWaypointsCount := length wps \<rparr> = ?r" by simp
  have 2: "ensurePolyline wps ?r = ?r" by (rule ensurePolyline_noop) simp
  have seg: "yellowSegments ?r = yellowSegments ?b" by simp
  have 3: "syncYellowSegments wps ?r = ?r"
  proof -
    have "placeSegments 0 (needed_segments wps) wps ?r = ?r"
      by (rule placeSegments_noop) (simp add: syncYellowSegments_nth)
    then show ?thesis
      by (subst syncYellowSegments_def)
         (simp add: trimSegments_noop growSegments_noop syncYellowSegments_length)
  qed
  have 4: "trimPoints wps ?r = ?r" by (rule trimPoints_noop) simp
  have 5: "growPoints wps ?r = ?r" by (rule growPoints_noop) simp
  have 6: "placePoints wps ?r = ?r" by (rule placePoints_idem)
  have "refreshEntities wps ?r = ?r"
    using True by (subst refreshEntities_def) (simp only: 1 2 3 4 5 6 placePoints_fields growPoints_fields trimPoints_fields syncYellowSegments_fields ensurePolyline_fields scene.simps if_False if_cancel not_True_eq_False simp_thms)
  with r show ?thesis by simp
qed

lemma render_after_viewer [simp]: "viewer (snd (render_after ps op)) = viewer (snd ps)"
  by (simp add: render_after_def Let_def)

lemma run_operations_viewer [simp]: "viewer (snd (run_operations ops ps)) = viewer (snd ps)"
proof -
  have "viewer (snd (foldl render_after qs ops)) = viewer (snd qs)" for qs
    by (induction ops arbitrary: qs) simp_all
  then show ?thesis by (simp add: run_operations_def first_render_def)
qed




lemma placeSegments_handles:
  "map handle (yellowSegments (placeSegments i needed wps s)) = map handle (yellowSegments s)"
  by (rule nth_equalityI) (simp_all add: placeSegments_length placeSegments_nth)

lemma syncYellowSegments_handles:
  "prefix (map handle (yellowSegments (syncYellowSegments wps s))) (map handle (yellowSegments s)) \<or>
   prefix (map handle (yellowSegments s)) (map handle (yellowSegments (syncYellowSegments wps s)))"
proof -
  let ?n = "needed_segments wps"
  let ?t = "trimSegments ?n s"
  let ?g = "growSegments ?n ?t"
  have h: "map handle (yellowSegments (syncYellowSegments wps s)) = map handle (yellowSegments ?g)"
    by (simp add: syncYellowSegments_def placeSegments_handles)
  have tk: "take (length (yellowSegments ?t)) (yellowSegments ?g) = yellowSegments ?t"
    by (rule growSegments_fields)
  have len: "length (yellowSegments ?g) = max ?n (length (yellowSegments ?t))"
    by (rule growSegments_fields)
  show ?thesis
  proof (cases "?n \<le> length (yellowSegments s)")
    case True
    then have "length (yellowSegments ?t) = ?n" by simp
    with len tk have "yellowSegments ?g = yellowSegments ?t" by simp
    then have "map handle (yellowSegments ?g) = take ?n (map handle (yellowSegments s))"
      by (simp add: take_map)
    with h show ?thesis by (simp add: take_is_prefix)
  next
    case False
    then have "yellowSegments ?t = yellowSegments s" by simp
    with tk have "prefix (yellowSegments s) (yellowSegments ?g)"
      by (metis take_is_prefix)
    then have "prefix (map handle (yellowSegments s)) (map handle (yellowSegments ?g))"
      by (rule map_mono_prefix)
    with h show ?thesis by simp
  qed
qed

lemma refreshEntities_segments:
  "viewer s \<Longrightarrow> yellowSegments (refreshEntities wps s) =
     yellowSegments (syncYellowSegments wps
       (ensurePolyline wps (s\<lparr> manualWaypointsCount := length wps \<rparr>)))"
  by (simp add: refreshEntities_def)

lemma refreshEntities_count:
  "viewer s \<Longrightarrow> manualWaypointsCount (refreshEntities wps s) = length wps"
  by (simp add: refreshEntities_def)

lemma first_pass_calls:
  "calls (refreshEntities [wp_a, wp_b] initial_scene) = [Add 0, Add 1, Add 2, Add 3]"
  by (simp add: refreshEntities_def initial_scene_def ensurePolyline_def entities_add_def
        syncYellowSegments_def needed_segments_def trimSegments.simps growSegments.simps
        trimPoints.simps growPoints.simps Let_def)

section \<open>The invariant of the entity refresh effect\<close>

lemma pop_general:
  assumes "distinct (xs @ [h] @ ys)" and "set (xs @ [h] @ ys) \<subseteq> set c" and "distinct c"
  shows "distinct (xs @ ys) \<and> set (xs @ ys) \<subseteq> set (removeAll h c) \<and>
         distinct (removeAll h c) \<and>
         filter (\<lambda>x. x \<notin> set (xs @ ys)) (removeAll h c) =
           filter (\<lambda>x. x \<notin> set (xs @ [h] @ ys)) c"
proof -
  from assms(1) have d: "distinct (xs @ ys)" and nin: "h \<notin> set (xs @ ys)" by auto
  from assms(2) nin have sub: "set (xs @ ys) \<subseteq> set (removeAll h c)" by auto
  have "filter (\<lambda>x. x \<notin> set (xs @ ys)) (removeAll h c) =
          filter (\<lambda>x. x \<notin> set (xs @ [h] @ ys)) c"
    by (induction c) auto
  with d sub assms(3) show ?thesis by (simp add: distinct_removeAll)
qed

lemma push_general:
  assumes "distinct (xs @ ys)" and "set (xs @ ys) \<subseteq> set c" and "distinct c"
    and "\<forall>h \<in> set c. h < n"
  shows "distinct (xs @ [n] @ ys) \<and> set (xs @ [n] @ ys) \<subseteq> set (c @ [n]) \<and>
         distinct (c @ [n]) \<and> (\<forall>h \<in> set (c @ [n]). h < Suc n) \<and>
         filter (\<lambda>x. x \<notin> set (xs @ [n] @ ys)) (c @ [n]) =
           filter (\<lambda>x. x \<notin> set (xs @ ys)) c"
proof -
  from assms(4) have nc: "n \<notin> set c" by auto
  with assms(2) have nin: "n \<notin> set (xs @ ys)" by auto
  from assms(1) nin have d: "distinct (xs @ [n] @ ys)" by auto
  from assms(2) have sub: "set (xs @ [n] @ ys) \<subseteq> set (c @ [n])" by auto
  from assms(3) nc have dc: "distinct (c @ [n])" by simp
  from assms(4) have lt: "\<forall>h \<in> set (c @ [n]). h < Suc n" by (auto simp: less_Suc_eq)
  have "filter (\<lambda>x. x \<notin> set (xs @ [n] @ ys)) c = filter (\<lambda>x. x \<notin> set (xs @ ys)) c"
    using nc by (intro filter_cong) auto
  then have f: "filter (\<lambda>x. x \<notin> set (xs @ [n] @ ys)) (c @ [n]) =
           filter (\<lambda>x. x \<notin> set (xs @ ys)) c"
    by simp
  from d sub dc lt f show ?thesis by blast
qed

lemma map_butlast_last:
  "xs \<noteq> [] \<Longrightarrow> map f xs = map f (butlast xs) @ [f (last xs)]"
  by (metis append_butlast_last_id list.simps(8) list.simps(9) map_append)

lemma scene_pop_point:
  assumes "scene_ok s" and "points s \<noteq> []"
  shows "scene_ok (entities_remove (last (points s)) (s\<lparr> points := butlast (points s) \<rparr>)) \<and>
         foreign (entities_remove (last (points s)) (s\<lparr> points := butlast (points s) \<rparr>)) =
           foreign s"
proof -
  let ?xs = "map handle (butlast (points s))"
  let ?h = "handle (last (points s))"
  let ?ys = "map handle (yellowSegments s) @
     (case polyline s of None \<Rightarrow> [] | Some ent \<Rightarrow> [handle ent])"
  have t: "tracked s = ?xs @ [?h] @ ?ys"
    using map_butlast_last [OF assms(2), of handle] by (simp add: tracked_def)
  from assms(1) have "distinct (?xs @ [?h] @ ?ys)" "set (?xs @ [?h] @ ?ys) \<subseteq> set (collection s)"
    "distinct (collection s)" and lt: "\<forall>h \<in> set (collection s). h < next_handle s"
    unfolding scene_ok_def t by blast+
  from pop_general [OF this(1,2,3)] lt show ?thesis
    unfolding scene_ok_def foreign_def t
    by (simp add: tracked_def entities_remove_def)
qed

lemma scene_pop_segment:
  assumes "scene_ok s" and "yellowSegments s \<noteq> []"
  shows "scene_ok (entities_remove (last (yellowSegments s))
           (s\<lparr> yellowSegments := butlast (yellowSegments s) \<rparr>)) \<and>
         foreign (entities_remove (last (yellowSegments s))
           (s\<lparr> yellowSegments := butlast (yellowSegments s) \<rparr>)) = foreign s"
proof -
  let ?xs = "map handle (points s) @ map handle (butlast (yellowSegments s))"
  let ?h = "handle (last (yellowSegments s))"
  let ?ys = "case polyline s of None \<Rightarrow> [] | Some ent \<Rightarrow> [handle ent]"
  have t: "tracked s = ?xs @ [?h] @ ?ys"
    using map_butlast_last [OF assms(2), of handle] by (simp add: tracked_def)
  from assms(1) have "distinct (?xs @ [?h] @ ?ys)" "set (?xs @ [?h] @ ?ys) \<subseteq> set (collection s)"
    "distinct (collection s)" and lt: "\<forall>h \<in> set (collection s). h < next_handle s"
    unfolding scene_ok_def t by blast+
  from pop_general [OF this(1,2,3)] lt show ?thesis
    unfolding scene_ok_def foreign_def t
    by (simp add: tracked_def entities_remove_def)
qed

lemma scene_push_point:
  assumes "scene_ok s"
  shows "scene_ok ((entities_add opts s)\<lparr> points := points s @ [created opts s] \<rparr>) \<and>
         foreign ((entities_add opts s)\<lparr> points := points s @ [created opts s] \<rparr>) = foreign s"
proof -
  let ?xs = "map handle (points s)"
  let ?ys = "map handle (yellowSegments s) @
     (case polyline s of None \<Rightarrow> [] | Some ent \<Rightarrow> [handle ent])"
  have t: "tracked s = ?xs @ ?ys" by (simp add: tracked_def)
  from assms have "distinct (?xs @ ?ys)" "set (?xs @ ?ys) \<subseteq> set (collection s)"
    "distinct (collection s)" "\<forall>h \<in> set (collection s). h < next_handle s"
    unfolding scene_ok_def t by blast+
  from push_general [OF this] show ?thesis
    unfolding scene_ok_def foreign_def t
    by (simp add: tracked_def entities_add_def created_def)
qed

lemma scene_push_segment:
  assumes "scene_ok s"
  shows "scene_ok ((entities_add opts s)
           \<lparr> yellowSegments := yellowSegments s @ [created opts s] \<rparr>) \<and>
         foreign ((entities_add opts s)
           \<lparr> yellowSegments := yellowSegments s @ [created opts s] \<rparr>) = foreign s"
proof -
  let ?xs = "map handle (points s) @ map handle (yellowSegments s)"
  let ?ys = "case polyline s of None \<Rightarrow> [] | Some ent \<Rightarrow> [handle ent]"
  have t: "tracked s = ?xs @ ?ys" by (simp add: tracked_def)
  from assms have "distinct (?xs @ ?ys)" "set (?xs @ ?ys) \<subseteq> set (collection s)"
    "distinct (collection s)" "\<forall>h \<in> set (collection s). h < next_handle s"
    unfolding scene_ok_def t by blast+
  from push_general [OF this] show ?thesis
    unfolding scene_ok_def foreign_def t
    by (simp add: tracked_def entities_add_def created_def)
qed

lemma scene_ensurePolyline:
  assumes "scene_ok s"
  shows "scene_ok (ensurePolyline wps s) \<and> foreign (ensurePolyline wps s) = foreign s"
proof (cases "polyline s")
  case None
  let ?xs = "map handle (points s) @ map handle (yellowSegments s)"
  have t: "tracked s = ?xs @ []" using None by (simp add: tracked_def)
  from assms have "distinct (?xs @ [])" "set (?xs @ []) \<subseteq> set (collection s)"
    "distinct (collection s)" "\<forall>h \<in> set (collection s). h < next_handle s"
    unfolding scene_ok_def t by blast+
  from push_general [OF this] None show ?thesis
    unfolding scene_ok_def foreign_def t
    by (simp add: tracked_def ensurePolyline_def Let_def entities_add_def created_def)
next
  case (Some e)
  with assms show ?thesis by (simp add: ensurePolyline_def)
qed

lemma scene_trimSegments:
  "scene_ok s \<Longrightarrow> scene_ok (trimSegments n s) \<and> foreign (trimSegments n s) = foreign s"
proof (induction n s rule: trimSegments.induct)
  case (1 needed s)
  show ?case
  proof (cases "needed < length (yellowSegments s)")
    case True
    then have ne: "yellowSegments s \<noteq> []" by auto
    let ?s' = "entities_remove (last (yellowSegments s))
                 (s\<lparr> yellowSegments := butlast (yellowSegments s) \<rparr>)"
    from scene_pop_segment [OF "1.prems" ne]
    have ok: "scene_ok ?s'" and f: "foreign ?s' = foreign s" by simp_all
    have e: "trimSegments needed s = trimSegments needed ?s'"
      using True by (subst trimSegments.simps) simp
    from "1.IH" [OF True ok] f show ?thesis by (simp add: e)
  next
    case False
    with "1.prems" show ?thesis by (simp add: trimSegments_noop)
  qed
qed

lemma scene_trimPoints:
  "scene_ok s \<Longrightarrow> scene_ok (trimPoints wps s) \<and> foreign (trimPoints wps s) = foreign s"
proof (induction wps s rule: trimPoints.induct)
  case (1 wps s)
  show ?case
  proof (cases "length wps < length (points s)")
    case True
    then have ne: "points s \<noteq> []" by auto
    let ?s' = "entities_remove (last (points s)) (s\<lparr> points := butlast (points s) \<rparr>)"
    from scene_pop_point [OF "1.prems" ne]
    have ok: "scene_ok ?s'" and f: "foreign ?s' = foreign s" by simp_all
    have e: "trimPoints wps s = trimPoints wps ?s'"
      using True by (subst trimPoints.simps) simp
    from "1.IH" [OF True ok] f show ?thesis by (simp add: e)
  next
    case False
    with "1.prems" show ?thesis by (simp add: trimPoints_noop)
  qed
qed

lemma scene_growSegments:
  "scene_ok s \<Longrightarrow> scene_ok (growSegments n s) \<and> foreign (growSegments n s) = foreign s"
proof (induction n s rule: growSegments.induct)
  case (1 needed s)
  show ?case
  proof (cases "length (yellowSegments s) < needed")
    case True
    let ?o = "segment_options (length (yellowSegments s))"
    let ?s' = "(entities_add ?o s)\<lparr> yellowSegments := yellowSegments s @ [created ?o s] \<rparr>"
    from scene_push_segment [OF "1.prems", of ?o]
    have ok: "scene_ok ?s'" and f: "foreign ?s' = foreign s" by simp_all
    have e: "growSegments needed s = growSegments needed ?s'"
      using True by (subst growSegments.simps) simp
    from "1.IH" [OF True ok] f show ?thesis by (simp add: e)
  next
    case False
    with "1.prems" show ?thesis by (simp add: growSegments_noop)
  qed
qed

lemma scene_growPoints:
  "scene_ok s \<Longrightarrow> scene_ok (growPoints wps s) \<and> foreign (growPoints wps s) = foreign s"
proof (induction wps s rule: growPoints.induct)
  case (1 wps s)
  show ?case
  proof (cases "length (points s) < length wps")
    case True
    let ?o = "point_options wps (length (points s))"
    let ?s' = "(entities_add ?o s)\<lparr> points := points s @ [created ?o s] \<rparr>"
    from scene_push_point [OF "1.prems", of ?o]
    have ok: "scene_ok ?s'" and f: "foreign ?s' = foreign s" by simp_all
    have e: "growPoints wps s = growPoints wps ?s'"
      using True by (subst growPoints.simps) simp
    from "1.IH" [OF True ok] f show ?thesis by (simp add: e)
  next
    case False
    with "1.prems" show ?thesis by (simp add: growPoints_noop)
  qed
qed

lemma placePoints_handles: "map handle (points (placePoints wps s)) = map handle (points s)"
  by (rule nth_equalityI) (simp_all add: placePoints_nth)

lemma tracked_placePoints [simp]: "tracked (placePoints wps s) = tracked s"
  by (simp add: tracked_def placePoints_handles)

lemma tracked_placeSegments [simp]: "tracked (placeSegments i n wps s) = tracked s"
  by (simp add: tracked_def placeSegments_handles)

lemma scene_placePoints:
  "scene_ok s \<Longrightarrow> scene_ok (placePoints wps s) \<and> foreign (placePoints wps s) = foreign s"
  by (simp add: scene_ok_def foreign_def)

lemma scene_placeSegments:
  "scene_ok s \<Longrightarrow>
   scene_ok (placeSegments i n wps s) \<and> foreign (placeSegments i n wps s) = foreign s"
  by (simp add: scene_ok_def foreign_def)

lemma scene_count:
  "scene_ok (s\<lparr> manualWaypointsCount := n \<rparr>) = scene_ok s \<and>
   foreign (s\<lparr> manualWaypointsCount := n \<rparr>) = foreign s"
  by (simp add: scene_ok_def foreign_def tracked_def)

lemma scene_syncYellowSegments:
  assumes "scene_ok s"
  shows "scene_ok (syncYellowSegments wps s) \<and> foreign (syncYellowSegments wps s) = foreign s"
proof -
  let ?n = "needed_segments wps"
  from scene_trimSegments [OF assms, of ?n]
  have 1: "scene_ok (trimSegments ?n s)" and f1: "foreign (trimSegments ?n s) = foreign s"
    by simp_all
  from scene_growSegments [OF 1, of ?n] f1
  have 2: "scene_ok (growSegments ?n (trimSegments ?n s))"
    and f2: "foreign (growSegments ?n (trimSegments ?n s)) = foreign s"
    by simp_all
  from scene_placeSegments [OF 2, of 0 ?n wps] f2 show ?thesis
    by (simp add: syncYellowSegments_def)
qed

lemma scene_refreshEntities:
  assumes "scene_ok s"
  shows "scene_ok (refreshEntities wps s) \<and> foreign (refreshEntities wps s) = foreign s"
proof (cases "viewer s")
  case False
  with assms show ?thesis by (simp add: refreshEntities_def)
next
  case True
  let ?a = "s\<lparr> manualWaypointsCount := length wps \<rparr>"
  let ?b = "ensurePolyline wps ?a"
  let ?c = "syncYellowSegments wps ?b"
  let ?d = "trimPoints wps ?c"
  let ?e = "growPoints wps ?d"
  from assms scene_count [where s = s and n = "length wps"]
  have a: "scene_ok ?a" and fa: "foreign ?a = foreign s" by simp_all
  from scene_ensurePolyline [OF a, of wps] fa
  have b: "scene_ok ?b" and fb: "foreign ?b = foreign s" by simp_all
  from scene_syncYellowSegments [OF b, of wps] fb
  have c: "scene_ok ?c" and fc: "foreign ?c = foreign s" by simp_all
  from scene_trimPoints [OF c, of wps] fc
  have d: "scene_ok ?d" and fd: "foreign ?d = foreign s" by simp_all
  from scene_growPoints [OF d, of wps] fd
  have e: "scene_ok ?e" and fe: "foreign ?e = foreign s" by simp_all
  from scene_placePoints [OF e, of wps] fe True show ?thesis
    by (simp add: refreshEntities_def)
qed


text \<open>
  In a well-formed scene the collection splits into the foreign entities and the kept
  ones, and every kept list is rendered in full, each entity once.
\<close>

lemma scene_ok_rendered:
  assumes "scene_ok s" and "set (map handle ents) \<subseteq> set (tracked s)"
    and "distinct (map handle ents)"
  shows "length (rendered ents s) = length ents"
proof -
  from assms(1) have dc: "distinct (collection s)"
    and sub: "set (tracked s) \<subseteq> set (collection s)"
    by (simp_all add: scene_ok_def)
  have "set (rendered ents s) = set (map handle ents)"
    using assms(2) sub by (auto simp: rendered_def)
  moreover have "distinct (rendered ents s)" using dc by (simp add: rendered_def)
  ultimately have "length (rendered ents s) = card (set (map handle ents))"
    by (metis distinct_card)
  also have "\<dots> = length (map handle ents)" using assms(3) by (rule distinct_card)
  finally show ?thesis by simp
qed


lemma scene_ok_rendered_segments:
  "scene_ok s \<Longrightarrow> length (rendered (yellowSegments s) s) = length (yellowSegments s)"
  by (rule scene_ok_rendered) (auto simp: scene_ok_def tracked_def)





section \<open>Properties of the poller\<close>

lemma poll_step_ref_latest:
  assumes "\<forall>c. fetchControllerRef p = Some c \<longrightarrow> Suc c = issued p"
  shows "\<forall>c. fetchControllerRef (poll_step p e) = Some c \<longrightarrow> Suc c = issued (poll_step p e)"
  using assms
  by (cases e)
     (auto simp: intervalTick_def fetchSettled_def jsonSettled_def onConnected_def
        startPolling_def onDisconnected_def cleanup_def stopPolling_def Let_def
        split: response.splits option.splits if_splits)

lemma poll_run_ref_latest:
  "\<forall>c. fetchControllerRef (poll_run evs initial_poller) = Some c \<longrightarrow>
     Suc c = issued (poll_run evs initial_poller)"
proof (induction evs rule: rev_induct)
  case Nil
  show ?case by (simp add: poll_run_def initial_poller_def)
next
  case (snoc e evs)
  have "poll_run (evs @ [e]) initial_poller = poll_step (poll_run evs initial_poller) e"
    by (simp add: poll_run_def)
  with poll_step_ref_latest [OF snoc.IH, of e] show ?case by simp
qed

section \<open>Properties of the fleet object\<close>

lemma object_keys_nonempty: "(object_keys fl = []) = (fl = [])"
proof -
  have "length (object_keys fl) = length (remdups (map fst fl))"
    by (simp add: object_keys_def)
  then show ?thesis by (metis length_0_conv remdups_eq_nil_iff map_is_Nil_conv)
qed


lemma object_keys_mem: "fl \<noteq> [] \<Longrightarrow> object_keys fl ! 0 \<in> set (object_keys fl)"
  by (rule nth_mem) (simp add: object_keys_nonempty)

section \<open>The claims\<close>

subsection \<open>C1: stale telemetry responses\<close>

text \<open>
  Claim C1, as stated, fails. After the connection event two ticks fire, the request of the
  second tick settles and its body is read, and then the same happens for the first: the
  panel shows the document of the first tick although the second was issued later, and no
  controller has been aborted. The overlay does the same with the two responses in that
  order.
\<close>

theorem stale_response_counterexample:
  "telemetry_panel
     (poll_run [TelemetryConnected, Tick, Tick,
                Settled 1 (Response True ()), BodyRead 1 (Some (answer 1)),
                Settled 0 (Response True ()), BodyRead 0 (Some (answer 0))]
        initial_poller) = Some \<lparr> fleet_field = False, content = 0 \<rparr> \<and>
   issued (poll_run [TelemetryConnected, Tick, Tick] initial_poller) = 2 \<and>
   aborted (poll_run [TelemetryConnected, Tick, Tick] initial_poller) = [] \<and>
   telemetry (fetchTelemetry (Response True (answer 0))
                (fetchTelemetry (Response True (answer 1)) initial_overlay)) =
     Some \<lparr> fleet_field = False, content = 0 \<rparr>"
  by (simp add: poll_run_def initial_poller_def onConnected_def startPolling_def
        intervalTick_def fetchSettled_def jsonSettled_def answer_def fetchTelemetry_def)

text \<open>
  Claim C1, amended. A tick issues its request without cancelling the previous one: it puts
  its new controller in the ref, and no tick, settled request, body read or connection
  event aborts a controller. Only stopping the poller (on disconnect and on cleanup) aborts
  one, and only the controller in the ref, which in every run is that of the request issued
  last. In the mission panel an ok response of a request that was not aborted, settling
  while the panel is mounted and connected, has its body read; when the read completes, a
  document without a fleet key becomes the displayed snapshot whichever tick issued the
  request, and a document with a fleet key is not applied. In the overlay every ok response
  becomes the displayed snapshot.
\<close>

theorem last_settled_response_is_displayed:
  "(connectedRef p \<and> mounted p \<longrightarrow>
      fetchControllerRef (intervalTick p) = Some (issued p) \<and>
      issued (intervalTick p) = Suc (issued p)) \<and>
   (e \<noteq> TelemetryDisconnected \<and> e \<noteq> Unmounted \<longrightarrow> aborted (poll_step p e) = aborted p) \<and>
   set (aborted (poll_step p e)) \<subseteq> set (aborted p) \<union> set_option (fetchControllerRef p) \<and>
   aborted (stopPolling p) =
     (case fetchControllerRef p of None \<Rightarrow> aborted p | Some c \<Rightarrow> c # aborted p) \<and>
   (\<forall>c. fetchControllerRef (poll_run evs initial_poller) = Some c \<longrightarrow>
      Suc c = issued (poll_run evs initial_poller)) \<and>
   (mounted p \<and> connectedRef p \<and> n \<notin> set (aborted p) \<longrightarrow>
      n \<in> set (reading (fetchSettled n (Response True ()) p))) \<and>
   (n \<in> set (reading p) \<longrightarrow>
      telemetry_panel (jsonSettled n (Some data) p) =
        (if fleet_field data then telemetry_panel p else Some data)) \<and>
   telemetry (fetchTelemetry (Response True data) st) = Some data"
proof -
  have 1: "connectedRef p \<and> mounted p \<longrightarrow>
      fetchControllerRef (intervalTick p) = Some (issued p) \<and>
      issued (intervalTick p) = Suc (issued p)"
    by (simp add: intervalTick_def)
  have 2: "e \<noteq> TelemetryDisconnected \<and> e \<noteq> Unmounted \<longrightarrow> aborted (poll_step p e) = aborted p"
    by (cases e)
       (simp_all add: intervalTick_def fetchSettled_def jsonSettled_def onConnected_def
          startPolling_def Let_def split: response.splits option.splits)
  have 4: "aborted (stopPolling q) =
     (case fetchControllerRef q of None \<Rightarrow> aborted q | Some c \<Rightarrow> c # aborted q)" for q
    by (simp add: stopPolling_def Let_def split: option.splits)
  have 3: "set (aborted (poll_step p e)) \<subseteq> set (aborted p) \<union> set_option (fetchControllerRef p)"
  proof (cases "e = TelemetryDisconnected \<or> e = Unmounted")
    case False
    with 2 show ?thesis by auto
  next
    case True
    then show ?thesis
      by (auto simp: onDisconnected_def cleanup_def 4 split: option.splits if_splits)
  qed
  have 5: "\<forall>c. fetchControllerRef (poll_run evs initial_poller) = Some c \<longrightarrow>
      Suc c = issued (poll_run evs initial_poller)"
    by (rule poll_run_ref_latest)
  have 6: "mounted p \<and> connectedRef p \<and> n \<notin> set (aborted p) \<longrightarrow>
      n \<in> set (reading (fetchSettled n (Response True ()) p))"
    by (simp add: fetchSettled_def)
  have 7: "n \<in> set (reading p) \<longrightarrow>
      telemetry_panel (jsonSettled n (Some data) p) =
        (if fleet_field data then telemetry_panel p else Some data)"
    by (simp add: jsonSettled_def Let_def)
  have 8: "telemetry (fetchTelemetry (Response True data) st) = Some data"
    by (simp add: fetchTelemetry_def)
  from 1 2 3 4 [of p] 5 6 7 8 show ?thesis by blast
qed

theorem last_settled_response_is_displayed_witness:
  "connectedRef (poll_run [TelemetryConnected, Tick] initial_poller) \<and>
   mounted (poll_run [TelemetryConnected, Tick] initial_poller) \<and>
   fetchControllerRef (poll_run [TelemetryConnected, Tick, Tick] initial_poller) = Some 1 \<and>
   aborted (poll_run [TelemetryConnected, Tick, Tick] initial_poller) =
     aborted (poll_run [TelemetryConnected, Tick] initial_poller) \<and>
   issued (poll_run [TelemetryConnected, Tick, Tick] initial_poller) = 2 \<and>
   aborted (poll_run [TelemetryConnected, Tick, Tick, TelemetryDisconnected] initial_poller) = [1] \<and>
   0 \<notin> set (aborted (poll_run [TelemetryConnected, Tick, Tick] initial_poller)) \<and>
   0 \<in> set (reading (poll_run [TelemetryConnected, Tick, Tick, Settled 0 (Response True ())]
                       initial_poller)) \<and>
   telemetry_panel
     (poll_run [TelemetryConnected, Tick, Tick, Settled 0 (Response True ()),
                BodyRead 0 (Some (answer 0))] initial_poller) = Some (answer 0) \<and>
   telemetry_panel
     (poll_run [TelemetryConnected, Tick, Tick, Settled 0 (Response True ()),
                BodyRead 0 (Some \<lparr> fleet_field = True, content = 0 \<rparr>)] initial_poller) = None"
proof -
  let ?p1 = "poll_run [TelemetryConnected, Tick] initial_poller"
  let ?p2 = "poll_run [TelemetryConnected, Tick, Tick] initial_poller"
  let ?p3 = "poll_run [TelemetryConnected, Tick, Tick, Settled 0 (Response True ())]
               initial_poller"
  have s2: "?p2 = poll_step ?p1 Tick" by (simp add: poll_run_def)
  have s3: "?p3 = fetchSettled 0 (Response True ()) ?p2" by (simp add: poll_run_def)
  have s4: "poll_run [TelemetryConnected, Tick, Tick, Settled 0 (Response True ()),
                BodyRead 0 (Some d)] initial_poller = jsonSettled 0 (Some d) ?p3" for d
    by (simp add: poll_run_def)
  have s5: "poll_run [TelemetryConnected, Tick, Tick, TelemetryDisconnected] initial_poller =
              poll_step ?p2 TelemetryDisconnected"
    by (simp add: poll_run_def)
  have h1: "connectedRef ?p1 \<and> mounted ?p1 \<and> interval ?p1 \<and> issued ?p1 = 1 \<and> aborted ?p1 = []"
    by (simp add: poll_run_def initial_poller_def onConnected_def startPolling_def
          intervalTick_def)
  have h2: "mounted ?p2 \<and> connectedRef ?p2 \<and> 0 \<notin> set (aborted ?p2) \<and>
            telemetry_panel ?p2 = None"
    by (simp add: poll_run_def initial_poller_def onConnected_def startPolling_def
          intervalTick_def)
  have h3: "telemetry_panel ?p3 = None"
    by (simp add: s3 fetchSettled_def h2)
  have h5: "aborted (poll_step ?p2 TelemetryDisconnected) = [1]"
    by (simp add: poll_run_def initial_poller_def onConnected_def startPolling_def
          intervalTick_def onDisconnected_def stopPolling_def)
  note t1 = last_settled_response_is_displayed
              [where p = ?p1 and e = Tick and evs = "[TelemetryConnected, Tick, Tick]"
                 and n = 0 and data = "answer 0" and st = initial_overlay]
  note t2 = last_settled_response_is_displayed
              [where p = ?p2 and e = Tick and evs = "[]"
                 and n = 0 and data = "answer 0" and st = initial_overlay]
  note t3 = last_settled_response_is_displayed
              [where p = ?p3 and e = Tick and evs = "[]"
                 and n = 0 and data = "answer 0" and st = initial_overlay]
  note t4 = last_settled_response_is_displayed
              [where p = ?p3 and e = Tick and evs = "[]" and n = 0
                 and data = "\<lparr> fleet_field = True, content = 0 \<rparr>" and st = initial_overlay]
  have tick: "poll_step ?p1 Tick = intervalTick ?p1" using h1 by simp
  from t1 h1 have a1: "fetchControllerRef (intervalTick ?p1) = Some (issued ?p1)"
    and a2: "issued (intervalTick ?p1) = Suc (issued ?p1)"
    by blast+
  from t1 have a3: "aborted (poll_step ?p1 Tick) = aborted ?p1" by blast
  have a: "fetchControllerRef ?p2 = Some 1 \<and> issued ?p2 = 2 \<and> aborted ?p2 = aborted ?p1"
    using a1 a2 a3 h1 unfolding s2 tick by simp
  from t2 h2 have b: "0 \<in> set (reading ?p3)" unfolding s3 by blast
  from t3 b have "telemetry_panel (jsonSettled 0 (Some (answer 0)) ?p3) =
        (if fleet_field (answer 0) then telemetry_panel ?p3 else Some (answer 0))"
    by blast
  then have c: "telemetry_panel (jsonSettled 0 (Some (answer 0)) ?p3) = Some (answer 0)"
    by (simp add: answer_def)
  from t4 b have "telemetry_panel (jsonSettled 0 (Some \<lparr> fleet_field = True, content = 0 \<rparr>) ?p3) =
        (if fleet_field \<lparr> fleet_field = True, content = 0 \<rparr> then telemetry_panel ?p3
         else Some \<lparr> fleet_field = True, content = 0 \<rparr>)"
    by blast
  with h3 have d: "telemetry_panel (jsonSettled 0 (Some \<lparr> fleet_field = True, content = 0 \<rparr>) ?p3) = None"
    by simp
  from h1 have g1: "connectedRef ?p1 \<and> mounted ?p1" by blast
  from h2 have g2: "0 \<notin> set (aborted ?p2)" by blast
  from a have g3: "fetchControllerRef ?p2 = Some 1" and g4: "aborted ?p2 = aborted ?p1"
    and g5: "issued ?p2 = 2" by blast+
  from h5 have g6: "aborted (poll_run [TelemetryConnected, Tick, Tick, TelemetryDisconnected]
      initial_poller) = [1]" unfolding s5 .
  from c have g7: "telemetry_panel
     (poll_run [TelemetryConnected, Tick, Tick, Settled 0 (Response True ()),
                BodyRead 0 (Some (answer 0))] initial_poller) = Some (answer 0)"
    unfolding s4 .
  from d have g8: "telemetry_panel
     (poll_run [TelemetryConnected, Tick, Tick, Settled 0 (Response True ()),
                BodyRead 0 (Some \<lparr> fleet_field = True, content = 0 \<rparr>)] initial_poller) = None"
    unfolding s4 .
  from g1 g2 g3 g4 g5 g6 g7 g8 b show ?thesis by blast
qed

subsection \<open>C2: updating and removing a waypoint\<close>

text \<open>
  Claim C2, as stated, fails. \<^verbatim>\<open>updateWaypoint\<close> and \<^verbatim>\<open>removeWaypoint\<close> take a list
  index. In the list a, b, c the waypoint b is at index 1; once a is removed, an update at
  index 1 changes c and leaves b as it was.
\<close>

theorem update_targets_position_counterexample:
  "waypoints (initial_panel\<lparr> waypoints := [wp_a, wp_b, wp_c] \<rparr>) ! 1 = wp_b \<and>
   id_wp wp_b \<noteq> id_wp wp_c \<and>
   waypoints (updateWaypoint 1 (no_patch\<lparr> patch_altitude := Some 99 \<rparr>)
               (removeWaypoint 0 (initial_panel\<lparr> waypoints := [wp_a, wp_b, wp_c] \<rparr>)))
     = [wp_b, wp_c\<lparr> altitude := 99 \<rparr>]"
  by (simp add: updateWaypoint_def removeWaypoint_def initial_panel_def wp_a_def wp_b_def wp_c_def
        no_patch_def spread_def)

text \<open>
  Claim C2, amended. Update and remove resolve their target by its position in the list:
  an update at index \<open>idx\<close> merges the patch into the waypoint at that position and
  leaves every other one alone, a removal at \<open>idx\<close> deletes the waypoint at that
  position and keeps the order of the rest, and an index that is not in the list leaves
  the list unchanged.
\<close>

theorem update_remove_by_position:
  "waypoints (updateWaypoint idx p st) =
     (if idx < length (waypoints st)
      then (waypoints st)[idx := spread (waypoints st ! idx) p] else waypoints st) \<and>
   waypoints (removeWaypoint idx st) = take idx (waypoints st) @ drop (Suc idx) (waypoints st) \<and>
   (length (waypoints st) \<le> idx \<longrightarrow>
      waypoints (updateWaypoint idx p st) = waypoints st \<and>
      waypoints (removeWaypoint idx st) = waypoints st)"
proof -
  have u: "waypoints (updateWaypoint idx p st) =
     (if idx < length (waypoints st)
      then (waypoints st)[idx := spread (waypoints st ! idx) p] else waypoints st)"
    using map_enumerate_update [of idx 0 "\<lambda>wp. spread wp p" "waypoints st"]
    by (simp add: updateWaypoint_def)
  have r: "waypoints (removeWaypoint idx st) = take idx (waypoints st) @ drop (Suc idx) (waypoints st)"
    using filter_enumerate_remove [of idx 0 "waypoints st"]
    by (simp add: removeWaypoint_def Let_def)
  from u r show ?thesis by simp
qed

theorem update_remove_by_position_witness:
  "waypoints (updateWaypoint 1 (no_patch\<lparr> patch_mode := Some LAND \<rparr>)
               (initial_panel\<lparr> waypoints := [wp_a, wp_b, wp_c] \<rparr>))
     = [wp_a, wp_b\<lparr> mode := LAND \<rparr>, wp_c] \<and>
   waypoints (removeWaypoint 1 (initial_panel\<lparr> waypoints := [wp_a, wp_b, wp_c] \<rparr>)) = [wp_a, wp_c] \<and>
   length (waypoints (initial_panel\<lparr> waypoints := [wp_a, wp_b, wp_c] \<rparr>)) \<le> 7 \<and>
   waypoints (updateWaypoint 7 (no_patch\<lparr> patch_mode := Some LAND \<rparr>)
               (initial_panel\<lparr> waypoints := [wp_a, wp_b, wp_c] \<rparr>)) = [wp_a, wp_b, wp_c] \<and>
   waypoints (removeWaypoint 7 (initial_panel\<lparr> waypoints := [wp_a, wp_b, wp_c] \<rparr>)) = [wp_a, wp_b, wp_c]"
  using update_remove_by_position
      [of 1 "no_patch\<lparr> patch_mode := Some LAND \<rparr>" "initial_panel\<lparr> waypoints := [wp_a, wp_b, wp_c] \<rparr>"]
    update_remove_by_position
      [of 7 "no_patch\<lparr> patch_mode := Some LAND \<rparr>" "initial_panel\<lparr> waypoints := [wp_a, wp_b, wp_c] \<rparr>"]
  by (simp add: spread_def no_patch_def wp_b_def initial_panel_def)

subsection \<open>C3: waypoints and their markers\<close>



subsection \<open>C4: the selected vehicle and the fleet snapshot\<close>

text \<open>
  Claim C4, as stated, fails. A first snapshot with vehicles 1 and 2 selects vehicle 1. The
  next snapshot has only vehicle 2: after its receipt the selection is still 1, which is
  not a key of that snapshot.
\<close>

theorem selection_outlives_vehicle_counterexample:
  "selectedDroneId overlay_after_first_snapshot = Some 1 \<and>
   selectedDroneId
     (fst (fetchFleetStatus (selectedDroneId overlay_after_first_snapshot)
             (Response True fleet_2) overlay_after_first_snapshot)) = Some 1 \<and>
   fleetStatus
     (fst (fetchFleetStatus (selectedDroneId overlay_after_first_snapshot)
             (Response True fleet_2) overlay_after_first_snapshot)) = Some fleet_2 \<and>
   fleet fleet_2 = Some [(2, sample_drone)] \<and>
   1 \<notin> set (object_keys [(2, sample_drone)])"
  by (simp add: overlay_after_first_snapshot_def fetchFleetStatus_def truthy_def
        initial_overlay_def object_keys_def fleet_1_2_def fleet_2_def)

text \<open>
  Claim C4, amended. The receipt of a fleet snapshot never clears the selection. While a
  vehicle is selected the selection stays as it is, whether or not the new snapshot still
  has that vehicle. While none is selected, the selection after the receipt is either
  unchanged or a key of the snapshot just received. The selection that the handler tests
  is its \<open>sel\<close>.
\<close>

theorem selection_kept_or_key_of_snapshot:
  "(truthy sel \<longrightarrow>
      selectedDroneId (fst (fetchFleetStatus sel resp st)) = selectedDroneId st) \<and>
   (\<not> truthy sel \<longrightarrow>
      selectedDroneId (fst (fetchFleetStatus sel resp st)) = selectedDroneId st \<or>
      (\<exists>data fl k. resp = Response True data \<and> fleet data = Some fl \<and>
         fleetStatus (fst (fetchFleetStatus sel resp st)) = Some data \<and>
         k \<in> set (object_keys fl) \<and>
         selectedDroneId (fst (fetchFleetStatus sel resp st)) = Some k))"
proof (cases resp)
  case (Rejected msg str)
  then show ?thesis by (simp add: fetchFleetStatus_def)
next
  case (Response ok data)
  show ?thesis
  proof (cases "fleet data")
    case None
    with Response show ?thesis by (simp add: fetchFleetStatus_def Let_def)
  next
    case (Some fl)
    show ?thesis
    proof (cases "ok \<and> \<not> truthy sel \<and> fl \<noteq> []")
      case True
      with Response Some show ?thesis
        by (simp add: fetchFleetStatus_def Let_def object_keys_nonempty object_keys_mem)
    next
      case False
      with Response Some show ?thesis
        by (auto simp: fetchFleetStatus_def Let_def object_keys_nonempty)
    qed
  qed
qed

theorem selection_kept_or_key_of_snapshot_witness:
  "truthy (selectedDroneId overlay_after_first_snapshot) \<and>
   selectedDroneId
     (fst (fetchFleetStatus (selectedDroneId overlay_after_first_snapshot)
             (Response True fleet_2) overlay_after_first_snapshot)) = Some 1 \<and>
   \<not> truthy (selectedDroneId initial_overlay) \<and>
   selectedDroneId
     (fst (fetchFleetStatus (selectedDroneId initial_overlay) (Response True fleet_2)
             initial_overlay)) = Some 2"
proof -
  have s1: "selectedDroneId overlay_after_first_snapshot = Some 1"
    by (simp add: overlay_after_first_snapshot_def fetchFleetStatus_def truthy_def
          initial_overlay_def object_keys_def fleet_1_2_def)
  have t: "truthy (selectedDroneId overlay_after_first_snapshot)"
    by (simp add: s1 truthy_def)
  have f: "\<not> truthy (selectedDroneId initial_overlay)"
    by (simp add: truthy_def initial_overlay_def)
  have k: "object_keys [(2, sample_drone)] = [2]" by (simp add: object_keys_def)
  have n: "selectedDroneId
     (fst (fetchFleetStatus (selectedDroneId initial_overlay) (Response True fleet_2)
             initial_overlay)) \<noteq> selectedDroneId initial_overlay"
    by (simp add: fetchFleetStatus_def truthy_def initial_overlay_def k fleet_2_def)
  from selection_kept_or_key_of_snapshot
         [of "selectedDroneId overlay_after_first_snapshot" "Response True fleet_2"
             overlay_after_first_snapshot]
       selection_kept_or_key_of_snapshot
         [of "selectedDroneId initial_overlay" "Response True fleet_2" initial_overlay]
       t f n k s1
  show ?thesis by (auto simp: fleet_2_def)
qed

subsection \<open>C5: default selection\<close>




subsection \<open>C6: path segments\<close>

text \<open>
  Claim C6. After a reconciliation pass over a waypoint list of length \<open>n\<close> the number of
  segment entities is \<open>max 0 (n - 1)\<close>, segment \<open>i\<close> joins the positions of waypoints
  \<open>i\<close> and \<open>i + 1\<close>, and the pool has only been trimmed or grown at its end: the
  handles after the pass are a prefix of those before, or those before are a prefix of those
  after. From a well-formed scene this is the number of segments in the viewer: the
  viewer's collection holds each segment of the pool exactly once, and what it held of
  other components is unchanged, so that no trimmed segment stays rendered.
\<close>

theorem segments_follow_waypoints:
  assumes "viewer s"
  shows "int (length (yellowSegments (refreshEntities wps s))) = max 0 (int (length wps) - 1) \<and>
         (\<forall>i. Suc i < length wps \<longrightarrow>
            ent_polyline (yellowSegments (refreshEntities wps s) ! i) =
              Some [fromDegrees (longitude (wps ! i)) (latitude (wps ! i)) 0,
                    fromDegrees (longitude (wps ! Suc i)) (latitude (wps ! Suc i)) 0]) \<and>
         (prefix (map handle (yellowSegments (refreshEntities wps s)))
                 (map handle (yellowSegments s)) \<or>
          prefix (map handle (yellowSegments s))
                 (map handle (yellowSegments (refreshEntities wps s)))) \<and>
         (scene_ok s \<longrightarrow>
            distinct (map handle (yellowSegments (refreshEntities wps s))) \<and>
            set (map handle (yellowSegments (refreshEntities wps s))) \<subseteq>
              set (collection (refreshEntities wps s)) \<and>
            int (length (rendered (yellowSegments (refreshEntities wps s))
                           (refreshEntities wps s))) = max 0 (int (length wps) - 1) \<and>
            foreign (refreshEntities wps s) = foreign s)"
proof -
  let ?a = "ensurePolyline wps (s\<lparr> manualWaypointsCount := length wps \<rparr>)"
  let ?r = "refreshEntities wps s"
  have e: "yellowSegments ?r = yellowSegments (syncYellowSegments wps ?a)"
    using assms by (rule refreshEntities_segments)
  have a: "yellowSegments ?a = yellowSegments s" by simp
  have 1: "int (length (yellowSegments ?r)) = max 0 (int (length wps) - 1)"
    by (simp add: e syncYellowSegments_length needed_segments_def)
  have 2: "ent_polyline (yellowSegments ?r ! i) =
              Some [fromDegrees (longitude (wps ! i)) (latitude (wps ! i)) 0,
                    fromDegrees (longitude (wps ! Suc i)) (latitude (wps ! Suc i)) 0]"
    if "Suc i < length wps" for i
  proof -
    from that have "i < needed_segments wps" by (simp add: needed_segments_def)
    then show ?thesis
      by (simp add: e syncYellowSegments_nth segment_positions_def)
  qed
  have 3: "prefix (map handle (yellowSegments ?r)) (map handle (yellowSegments s)) \<or>
          prefix (map handle (yellowSegments s)) (map handle (yellowSegments ?r))"
    using syncYellowSegments_handles [of wps ?a] by (simp only: e a)
  have 4: "distinct (map handle (yellowSegments ?r)) \<and>
           set (map handle (yellowSegments ?r)) \<subseteq> set (collection ?r) \<and>
           int (length (rendered (yellowSegments ?r) ?r)) = max 0 (int (length wps) - 1) \<and>
           foreign ?r = foreign s"
    if ok0: "scene_ok s"
  proof -
    from scene_refreshEntities [OF ok0, of wps]
    have ok: "scene_ok ?r" and f: "foreign ?r = foreign s" by simp_all
    from ok have d: "distinct (map handle (yellowSegments ?r))"
      and sub: "set (map handle (yellowSegments ?r)) \<subseteq> set (collection ?r)"
      by (auto simp: scene_ok_def tracked_def)
    from scene_ok_rendered_segments [OF ok] 1
    have r: "int (length (rendered (yellowSegments ?r) ?r)) = max 0 (int (length wps) - 1)"
      by simp
    from d sub r f show ?thesis by blast
  qed
  from 1 2 3 4 show ?thesis by blast
qed

theorem segments_follow_waypoints_witness:
  "viewer pinned_scene \<and> scene_ok pinned_scene \<and>
   length (yellowSegments (refreshEntities [wp_a, wp_b, wp_c] pinned_scene)) = 2 \<and>
   ent_polyline (yellowSegments (refreshEntities [wp_a, wp_b, wp_c] pinned_scene) ! 1) =
     Some [fromDegrees 11 21 0, fromDegrees 12 22 0] \<and>
   length (rendered (yellowSegments (refreshEntities [wp_a, wp_b, wp_c] pinned_scene))
             (refreshEntities [wp_a, wp_b, wp_c] pinned_scene)) = 2 \<and>
   foreign (refreshEntities [wp_a, wp_b, wp_c] pinned_scene) = [0] \<and>
   length (yellowSegments (refreshEntities [] pinned_scene)) = 0"
proof -
  have v: "viewer pinned_scene" by (simp add: pinned_scene_def initial_scene_def)
  have ok: "scene_ok pinned_scene"
    by (simp add: pinned_scene_def initial_scene_def scene_ok_def tracked_def)
  have f: "foreign pinned_scene = [0]"
    by (simp add: pinned_scene_def initial_scene_def foreign_def tracked_def)
  from segments_follow_waypoints [OF v, of "[wp_a, wp_b, wp_c]"]
    segments_follow_waypoints [OF v, of "[]"] v ok f
  show ?thesis by (simp add: wp_b_def wp_c_def)
qed

subsection \<open>C7: a second pass\<close>

text \<open>
  Claim C7. Reconciliation is idempotent: a second pass over the same waypoint list leaves
  the whole scene, entity table included, as the first pass left it, and the log of the
  create and remove calls made on the viewer is no longer than after the first pass.
\<close>

theorem reconciliation_idempotent:
  "refreshEntities wps (refreshEntities wps s) = refreshEntities wps s \<and>
   calls (refreshEntities wps (refreshEntities wps s)) = calls (refreshEntities wps s)"
  by (simp add: refreshEntities_idem)

theorem reconciliation_idempotent_witness:
  "calls (refreshEntities [wp_a, wp_b] initial_scene) = [Add 0, Add 1, Add 2, Add 3] \<and>
   calls (refreshEntities [wp_a, wp_b] (refreshEntities [wp_a, wp_b] initial_scene)) =
     [Add 0, Add 1, Add 2, Add 3]"
  using reconciliation_idempotent [of "[wp_a, wp_b]" initial_scene] first_pass_calls
  by simp

subsection \<open>C8: manual and geofile missions\<close>

text \<open>
  Claim C8, as stated, fails in its second direction. With a geofile loaded and the planner
  switched back to manual mode, the Start button is enabled and starts a manual mission,
  and a click in add mode adds a waypoint.
\<close>

theorem manual_actions_with_geofile_counterexample:
  "kmlUploaded (initial_scene\<lparr> kmlUploaded := True \<rparr>) \<and>
   canStart (initial_scene\<lparr> kmlUploaded := True \<rparr>) (initial_panel\<lparr> waypoints := [wp_a] \<rparr>) \<and>
   handleUnifiedStart (initial_panel\<lparr> waypoints := [wp_a] \<rparr>) = do_handleStartMission \<and>
   waypoints
     (leftClickFn (Some \<lparr> deg_longitude = 11, deg_latitude = 21, deg_altitude = 0 \<rparr>) ''b''
        (initial_panel\<lparr> addMode := True \<rparr>)) = [wp_b]"
  by (simp add: canStart_def handleUnifiedStart_def leftClickFn_def addWaypointAt_def
        initial_panel_def initial_scene_def wp_b_def DEFAULT_ALTITUDE_M_def)

text \<open>
  Claim C8, amended. While at least one manually placed waypoint exists (the pass of its
  render has published the count), no geofile-mission action takes effect: the listeners
  for starting the KML mission and for generating the coverage path call nothing. In the
  other direction the manual actions are blocked while the planner is in KML mode, not
  while a geofile is loaded: in KML mode a click adds no waypoint and the Start button does
  not start a manual mission.
\<close>

theorem manual_and_geofile_gates:
  "(viewer s \<and> waypoints st \<noteq> [] \<longrightarrow>
      onStartKml (refreshEntities (waypoints st) s) ov = [] \<and>
      onGeneratePath (refreshEntities (waypoints st) s) ov = []) \<and>
   (plannerMode st = KML \<longrightarrow>
      leftClickFn click uuid st = st \<and>
      handleUnifiedStart st = dispatch_start_kml_mission)"
  by (simp add: onStartKml_def onGeneratePath_def isKmlBlocked_def refreshEntities_count
        leftClickFn_def handleUnifiedStart_def)

theorem manual_and_geofile_gates_witness:
  "viewer initial_scene \<and>
   waypoints (initial_panel\<lparr> waypoints := [wp_a] \<rparr>) \<noteq> [] \<and>
   onStartKml (refreshEntities (waypoints (initial_panel\<lparr> waypoints := [wp_a] \<rparr>)) initial_scene)
     (initial_overlay\<lparr> uploadedKmlFile := Some ''area.kml'' \<rparr>) = [] \<and>
   onGeneratePath (refreshEntities (waypoints (initial_panel\<lparr> waypoints := [wp_a] \<rparr>)) initial_scene)
     (initial_overlay\<lparr> uploadedKmlFile := Some ''area.kml'' \<rparr>) = [] \<and>
   onStartKml initial_scene (initial_overlay\<lparr> uploadedKmlFile := Some ''area.kml'' \<rparr>) =
     [call_handleStartMission] \<and>
   plannerMode (initial_panel\<lparr> plannerMode := KML, addMode := True \<rparr>) = KML \<and>
   leftClickFn (Some \<lparr> deg_longitude = 11, deg_latitude = 21, deg_altitude = 0 \<rparr>) ''b''
     (initial_panel\<lparr> plannerMode := KML, addMode := True \<rparr>) =
     initial_panel\<lparr> plannerMode := KML, addMode := True \<rparr>"
proof -
  have v: "viewer initial_scene \<and> waypoints (initial_panel\<lparr> waypoints := [wp_a] \<rparr>) \<noteq> []"
    by (simp add: initial_scene_def)
  have k: "plannerMode (initial_panel\<lparr> plannerMode := KML, addMode := True \<rparr>) = KML" by simp
  have o: "onStartKml initial_scene (initial_overlay\<lparr> uploadedKmlFile := Some ''area.kml'' \<rparr>) =
     [call_handleStartMission]"
    by (simp add: onStartKml_def isKmlBlocked_def initial_scene_def)
  from manual_and_geofile_gates
         [of initial_scene "initial_panel\<lparr> waypoints := [wp_a] \<rparr>"
             "initial_overlay\<lparr> uploadedKmlFile := Some ''area.kml'' \<rparr>"]
       manual_and_geofile_gates
         [of _ "initial_panel\<lparr> plannerMode := KML, addMode := True \<rparr>" _
             "Some \<lparr> deg_longitude = 11, deg_latitude = 21, deg_altitude = 0 \<rparr>" "''b''"]
       v k o
  show ?thesis by simp
qed

subsection \<open>C9: a failed submission\<close>



subsection \<open>C10: adding a waypoint by a click\<close>

text \<open>
  Claim C10. In add mode (and manual planner mode) a click whose pick succeeds appends one
  waypoint at the end of the list: its id is the UUID just generated, its coordinates are
  the picked ones, its altitude is exactly 5 and its mode is WAYPOINT. The waypoints that
  were there stay as they were and in the same order, and nothing else in the panel changes.
  Any other click (outside add mode, in KML mode, or with a failed pick) creates nothing.
\<close>

theorem click_appends_waypoint:
  "(addMode st \<and> plannerMode st = MANUAL \<longrightarrow>
      leftClickFn (Some deg) uuid st =
        st\<lparr> waypoints := waypoints st @
          [\<lparr> id_wp = uuid, longitude = deg_longitude deg, latitude = deg_latitude deg,
             altitude = 5, mode = WAYPOINT \<rparr>] \<rparr>) \<and>
   (\<not> (addMode st \<and> plannerMode st = MANUAL) \<longrightarrow> leftClickFn click uuid st = st) \<and>
   leftClickFn None uuid st = st"
  by (simp add: leftClickFn_def addWaypointAt_def DEFAULT_ALTITUDE_M_def)

theorem click_appends_waypoint_witness:
  "addMode (initial_panel\<lparr> addMode := True, waypoints := [wp_a] \<rparr>) \<and>
   plannerMode (initial_panel\<lparr> addMode := True, waypoints := [wp_a] \<rparr>) = MANUAL \<and>
   waypoints (leftClickFn (Some \<lparr> deg_longitude = 11, deg_latitude = 21, deg_altitude = 0 \<rparr>) ''b''
                (initial_panel\<lparr> addMode := True, waypoints := [wp_a] \<rparr>)) = [wp_a, wp_b] \<and>
   \<not> (addMode initial_panel \<and> plannerMode initial_panel = MANUAL) \<and>
   leftClickFn (Some \<lparr> deg_longitude = 11, deg_latitude = 21, deg_altitude = 0 \<rparr>) ''b''
     initial_panel = initial_panel"
proof -
  have n: "\<not> (addMode initial_panel \<and> plannerMode initial_panel = MANUAL)"
    by (simp add: initial_panel_def)
  from click_appends_waypoint
    [of "initial_panel\<lparr> addMode := True, waypoints := [wp_a] \<rparr>"
        "\<lparr> deg_longitude = 11, deg_latitude = 21, deg_altitude = 0 \<rparr>" "''b''"]
    click_appends_waypoint
    [where st = initial_panel and uuid = "''b''"
       and click = "Some \<lparr> deg_longitude = 11, deg_latitude = 21, deg_altitude = 0 \<rparr>"]
    n
  show ?thesis by (simp add: wp_b_def initial_panel_def)
qed

end
